theory Spec2Isabelle
  imports Main "HOL-Library.Sublist"
begin

section \<open>JavaScript values, strings and outcomes\<close>

text \<open>
  The handlers of \<^verbatim>\<open>server.js\<close> receive their inputs from \<^verbatim>\<open>express.json()\<close>, so a
  request field is any JSON value, or \<^verbatim>\<open>undefined\<close> when the key is missing.
  A string is a list of code units; the model keeps the code units below 256
  (Isabelle's \<^typ>\<open>char\<close>), read as the first 256 code points of Unicode.
  The code does no arithmetic on numbers: a number is carried as the text that
  \<^verbatim>\<open>Number.prototype.toString\<close> gives for it, which is all the code can observe of it.
\<close>

datatype jsval =
    JUndefined
  | JNull
  | JBool bool
  | JNum string
  | JStr string
  | JArr "jsval list"
  | JObj "(string \<times> jsval) list"

datatype js_error = TypeError

text \<open>What evaluating a piece of JavaScript ends in: a value, or a thrown exception.\<close>

datatype 'a outcome = Returned 'a | Threw js_error

fun bind_outcome :: "'a outcome \<Rightarrow> ('a \<Rightarrow> 'b outcome) \<Rightarrow> 'b outcome" where
  "bind_outcome (Returned x) k = k x"
| "bind_outcome (Threw e) k = Threw e"

text \<open>\<^verbatim>\<open>try { body } catch (error) { handler }\<close>\<close>

fun try_catch :: "'a outcome \<Rightarrow> (js_error \<Rightarrow> 'a outcome) \<Rightarrow> 'a outcome" where
  "try_catch (Returned x) h = Returned x"
| "try_catch (Threw e) h = h e"

fun sequence_outcome :: "'a outcome list \<Rightarrow> 'a list outcome" where
  "sequence_outcome [] = Returned []"
| "sequence_outcome (x # xs) =
     bind_outcome x (\<lambda>y. bind_outcome (sequence_outcome xs) (\<lambda>ys. Returned (y # ys)))"

fun join :: "string \<Rightarrow> string list \<Rightarrow> string" where
  "join sep [] = []"
| "join sep [x] = x"
| "join sep (x # y # ys) = x @ sep @ join sep (y # ys)"

text \<open>
  \<^verbatim>\<open>ToString\<close>, as the template literal applies it to \<^verbatim>\<open>subject\<close>. An array is joined
  with commas, \<^verbatim>\<open>null\<close> and \<^verbatim>\<open>undefined\<close> elements giving the empty string. An object
  parsed from JSON has no callable property of its own: with an own key
  \<^verbatim>\<open>toString\<close> the conversion to a primitive finds nothing to call and throws a
  TypeError, without it \<^verbatim>\<open>Object.prototype.toString\<close> answers.
\<close>

fun ToString :: "jsval \<Rightarrow> string outcome" where
  "ToString JUndefined = Returned ''undefined''"
| "ToString JNull = Returned ''null''"
| "ToString (JBool b) = Returned (if b then ''true'' else ''false'')"
| "ToString (JNum n) = Returned n"
| "ToString (JStr s) = Returned s"
| "ToString (JArr xs) =
     bind_outcome
       (sequence_outcome
          (map (\<lambda>x. if x = JUndefined \<or> x = JNull then Returned [] else ToString x) xs))
       (\<lambda>strs. Returned (join '','' strs))"
| "ToString (JObj kvs) =
     (if ''toString'' \<in> set (map fst kvs) then Threw TypeError
      else Returned ''[object Object]'')"

subsection \<open>Character classes\<close>

definition is_digit :: "char \<Rightarrow> bool" where
  "is_digit c = (c \<in> set ''0123456789'')"

definition is_upper :: "char \<Rightarrow> bool" where
  "is_upper c = (c \<in> set ''ABCDEFGHIJKLMNOPQRSTUVWXYZ'')"

definition is_lower :: "char \<Rightarrow> bool" where
  "is_lower c = (c \<in> set ''abcdefghijklmnopqrstuvwxyz'')"

text \<open>\<^verbatim>\<open>\w\<close> of a regular expression without the \<^verbatim>\<open>u\<close> and \<^verbatim>\<open>i\<close> flags.\<close>

definition is_word_char :: "char \<Rightarrow> bool" where
  "is_word_char c = (is_upper c \<or> is_lower c \<or> is_digit c \<or> c = CHR ''_'')"

text \<open>
  \<^verbatim>\<open>String.prototype.toLowerCase\<close> on the code units of the model: the letters A to Z
  and the capital letters of Latin-1 (U+00C0 to U+00DE without the
  multiplication sign U+00D7) move up by 32, every other code unit stays.
\<close>

definition toLowerChar :: "char \<Rightarrow> char" where
  "toLowerChar c =
     (let n = (of_char c :: nat) in
      if (65 \<le> n \<and> n \<le> 90) \<or> (192 \<le> n \<and> n \<le> 222 \<and> n \<noteq> 215)
      then char_of (n + 32) else c)"

definition toLowerCase :: "string \<Rightarrow> string" where
  "toLowerCase s = map toLowerChar s"

text \<open>\<^verbatim>\<open>s.includes(v)\<close>: \<open>v\<close> occurs in \<open>s\<close> as a contiguous run.\<close>

definition includes_str :: "string \<Rightarrow> string \<Rightarrow> bool" where
  "includes_str s v = sublist v s"

text \<open>\<^verbatim>\<open>s.substring(0, n)\<close>\<close>

definition substring0 :: "string \<Rightarrow> nat \<Rightarrow> string" where
  "substring0 s n = take n s"

text \<open>\<^verbatim>\<open>s.split('@')[0]\<close>: the text before the first \<^verbatim>\<open>@\<close>, the whole string without one.\<close>

definition split_at_first :: "string \<Rightarrow> string" where
  "split_at_first s = takeWhile (\<lambda>c. c \<noteq> CHR ''@'') s"

text \<open>\<^verbatim>\<open>s.replace(/[._]/g, ' ')\<close>\<close>

definition replace_dots :: "string \<Rightarrow> string" where
  "replace_dots s = map (\<lambda>c. if c = CHR ''.'' \<or> c = CHR ''_'' then CHR '' '' else c) s"

section \<open>Regular expressions\<close>

text \<open>
  Both regular expressions of \<^verbatim>\<open>extractLeadFromEmail\<close> are a sequence of word-boundary
  assertions and of character classes under a greedy quantifier \<^verbatim>\<open>{lo,hi}\<close>
  (\<^verbatim>\<open>+\<close> is \<^verbatim>\<open>{1,}\<close>, \<^verbatim>\<open>?\<close> is \<^verbatim>\<open>{0,1}\<close>, a single character is \<^verbatim>\<open>{1,1}\<close>).
\<close>

datatype item = WordBoundary | Rep "char \<Rightarrow> bool" nat "nat option"

type_synonym regex = "item list"

text \<open>
  The position of the matcher in the input is the code unit before it
  (\<open>None\<close> at the start of the input) and the text after it.
\<close>

definition is_word_opt :: "char option \<Rightarrow> bool" where
  "is_word_opt p = (case p of None \<Rightarrow> False | Some c \<Rightarrow> is_word_char c)"

definition next_char :: "string \<Rightarrow> char option" where
  "next_char s = (case s of [] \<Rightarrow> None | c # _ \<Rightarrow> Some c)"

definition boundary :: "char option \<Rightarrow> string \<Rightarrow> bool" where
  "boundary prev rest = (is_word_opt prev \<noteq> is_word_opt (next_char rest))"

text \<open>The code unit before the position reached after reading \<open>u\<close>.\<close>

definition prev_after :: "char option \<Rightarrow> string \<Rightarrow> char option" where
  "prev_after prev u = (if u = [] then prev else Some (last u))"

text \<open>
  A greedy quantifier takes as many code units as it can and gives them back one
  at a time while the rest of the pattern fails: \<open>greedy f lo n\<close> tries the
  counts \<open>n\<close>, \<open>n - 1\<close>, down to \<open>lo\<close>.
\<close>

fun greedy :: "(nat \<Rightarrow> 'a option) \<Rightarrow> nat \<Rightarrow> nat \<Rightarrow> 'a option" where
  "greedy f lo 0 = f 0"
| "greedy f lo (Suc n) =
     (case f (Suc n) of
        Some r \<Rightarrow> Some r
      | None \<Rightarrow> if lo \<le> n then greedy f lo n else None)"

definition capped :: "nat option \<Rightarrow> nat \<Rightarrow> nat" where
  "capped hi k = (case hi of None \<Rightarrow> k | Some h \<Rightarrow> min h k)"

text \<open>
  The backtracking matcher at one start position: the number of code units the
  match takes, \<open>None\<close> when there is no match from here.
\<close>

primrec run :: "regex \<Rightarrow> char option \<Rightarrow> string \<Rightarrow> nat option" where
  "run [] = (\<lambda>prev s. Some 0)"
| "run (i # r) = (\<lambda>prev s.
     case i of
       WordBoundary \<Rightarrow> if boundary prev s then run r prev s else None
     | Rep c lo hi \<Rightarrow>
         (let k = capped hi (length (takeWhile c s)) in
          if k < lo then None
          else greedy
                 (\<lambda>n. map_option (\<lambda>m. n + m) (run r (prev_after prev (take n s)) (drop n s)))
                 lo k))"

text \<open>The start positions are tried from left to right, the end of the input included.\<close>

fun scan :: "regex \<Rightarrow> char option \<Rightarrow> string \<Rightarrow> string option" where
  "scan re prev [] = (case run re prev [] of Some n \<Rightarrow> Some [] | None \<Rightarrow> None)"
| "scan re prev (c # s) =
     (case run re prev (c # s) of
        Some n \<Rightarrow> Some (take n (c # s))
      | None \<Rightarrow> scan re (Some c) s)"

text \<open>\<^verbatim>\<open>s.match(re)?.[0]\<close> for a regular expression without the \<^verbatim>\<open>g\<close> flag.\<close>

definition match0 :: "string \<Rightarrow> regex \<Rightarrow> string option" where
  "match0 s re = scan re None s"

definition one :: "char \<Rightarrow> item" where
  "one c = Rep (\<lambda>x. x = c) 1 (Some 1)"

text \<open>\<^verbatim>\<open>/\b[A-Za-z0-9._%+-]+@[A-Za-z0-9.-]+\.[A-Z|a-z]{2,}\b/\<close>\<close>

definition emailRegex :: regex where
  "emailRegex =
     [WordBoundary,
      Rep (\<lambda>c. is_upper c \<or> is_lower c \<or> is_digit c \<or> c \<in> set ''._%+-'') 1 None,
      one (CHR ''@''),
      Rep (\<lambda>c. is_upper c \<or> is_lower c \<or> is_digit c \<or> c \<in> set ''.-'') 1 None,
      one (CHR ''.''),
      Rep (\<lambda>c. is_upper c \<or> c = CHR ''|'' \<or> is_lower c) 2 None,
      WordBoundary]"

text \<open>\<^verbatim>\<open>/\b\d{3}[-.]?\d{3}[-.]?\d{4}\b/\<close>\<close>

definition phoneRegex :: regex where
  "phoneRegex =
     [WordBoundary,
      Rep is_digit 3 (Some 3),
      Rep (\<lambda>c. c \<in> set ''-.'') 0 (Some 1),
      Rep is_digit 3 (Some 3),
      Rep (\<lambda>c. c \<in> set ''-.'') 0 (Some 1),
      Rep is_digit 4 (Some 4),
      WordBoundary]"

section \<open>The lead extractor\<close>

text \<open>
  The object \<^verbatim>\<open>extractLeadFromEmail\<close> returns; \<^verbatim>\<open>email\<close> and \<^verbatim>\<open>phone\<close> are \<^verbatim>\<open>undefined\<close>
  (\<open>None\<close>) without a match. Its key \<^verbatim>\<open>notes\<close> is \<open>notes_text\<close> here.
\<close>

record lead =
  name :: string
  email :: "string option"
  phone :: "string option"
  vehicle :: string
  notes_text :: string

definition vehicles :: "string list" where
  "vehicles = [''toyota'', ''honda'', ''ford'', ''chevrolet'', ''nissan'', ''bmw'',
               ''mercedes'', ''audi'']"

text \<open>
  \<^verbatim>\<open>vehicles.find(v => body.toLowerCase().includes(v) || subject.toLowerCase().includes(v))\<close>,
  with \<open>body\<close> a string already. The subject is looked at only for a keyword the
  body does not contain, and \<^verbatim>\<open>subject.toLowerCase\<close> is a function only on a string.
\<close>

fun find_vehicle :: "string \<Rightarrow> jsval \<Rightarrow> string list \<Rightarrow> string option outcome" where
  "find_vehicle body subject [] = Returned None"
| "find_vehicle body subject (v # vs) =
     (if includes_str (toLowerCase body) v then Returned (Some v)
      else case subject of
             JStr s \<Rightarrow>
               if includes_str (toLowerCase s) v then Returned (Some v)
               else find_vehicle body subject vs
           | _ \<Rightarrow> Threw TypeError)"

text \<open>\<^verbatim>\<open>vehicleMatch || 'Not specified'\<close>: the empty string is falsy too.\<close>

definition or_default :: "string option \<Rightarrow> string \<Rightarrow> string" where
  "or_default x d = (case x of None \<Rightarrow> d | Some v \<Rightarrow> if v = [] then d else v)"

definition LF :: char where
  "LF = CHR 0x0A"

text \<open>
  The body of the \<^verbatim>\<open>try\<close> block. \<^verbatim>\<open>from.match\<close> and \<^verbatim>\<open>body.match\<close> are functions only
  on strings: on every other value the call throws a TypeError.
\<close>

definition extract_try :: "jsval \<Rightarrow> jsval \<Rightarrow> jsval \<Rightarrow> lead outcome" where
  "extract_try from subject body =
     (case from of
        JStr f \<Rightarrow>
          (case body of
             JStr b \<Rightarrow>
               (let email = match0 f emailRegex;
                    phone = match0 b phoneRegex;
                    name = replace_dots (split_at_first f)
                in bind_outcome (find_vehicle b subject vehicles) (\<lambda>vehicleMatch.
                   bind_outcome (ToString subject) (\<lambda>subj.
                   Returned \<lparr> name = name, email = email, phone = phone,
                              vehicle = or_default vehicleMatch ''Not specified'',
                              notes_text = ''Email Subject: '' @ subj @ [LF, LF] @ ''Email Body: ''
                                        @ substring0 b 500 @ ''...'' \<rparr>)))
           | _ \<Rightarrow> Threw TypeError)
      | _ \<Rightarrow> Threw TypeError)"

text \<open>
  \<^verbatim>\<open>extractLeadFromEmail\<close>: the \<^verbatim>\<open>catch\<close> clause logs the error and returns \<^verbatim>\<open>null\<close>
  (\<open>None\<close>).
\<close>

definition extractLeadFromEmail :: "jsval \<Rightarrow> jsval \<Rightarrow> jsval \<Rightarrow> lead option outcome" where
  "extractLeadFromEmail from subject body =
     try_catch (bind_outcome (extract_try from subject body) (\<lambda>l. Returned (Some l)))
               (\<lambda>error. Returned None)"

section \<open>The database\<close>

text \<open>
  The tables of \<^verbatim>\<open>setupDatabase\<close>. A column that may hold \<^verbatim>\<open>NULL\<close> is an option, a
  \<^verbatim>\<open>NOT NULL\<close> column is not. The column names are prefixed by their table, since the
  tables share them; \<^verbatim>\<open>id\<close> of \<^verbatim>\<open>leads\<close> is \<open>lead_id\<close> and \<^verbatim>\<open>notes\<close> is \<open>lead_notes\<close>.
  A table that exists has the columns and constraints the script gives it.
  A \<^verbatim>\<open>SERIAL\<close> column draws from a sequence, whose last value the table carries.
  Strings are taken without the code unit 0, which the database refuses in a text.
\<close>

type_synonym timestamp = int

record dealership_row =
  d_id :: int
  d_name :: string
  d_address :: "string option"
  d_phone :: "string option"
  d_email :: "string option"
  d_created_at :: "timestamp option"

record user_row =
  u_id :: int
  u_email :: string
  u_password :: string
  u_name :: string
  u_role :: "string option"
  u_dealership_id :: "int option"
  u_created_at :: "timestamp option"
  u_updated_at :: "timestamp option"

record lead_row =
  lead_id :: int
  customer_name :: string
  customer_email :: "string option"
  customer_phone :: "string option"
  vehicle_interest :: "string option"
  source :: "string option"
  lead_notes :: "string option"
  priority :: "string option"
  status :: "string option"
  assigned_to :: "int option"
  dealership_id :: "int option"
  created_at :: "timestamp option"
  updated_at :: "timestamp option"

record activity_row =
  a_id :: int
  a_lead_id :: "int option"
  a_user_id :: "int option"
  a_activity_type :: string
  a_description :: "string option"
  a_created_at :: "timestamp option"

record email_log_row =
  e_id :: int
  e_from_email :: "string option"
  e_subject :: "string option"
  e_body :: "string option"
  e_processed :: "bool option"
  e_lead_id :: "int option"
  e_created_at :: "timestamp option"

record 'r table =
  rows :: "'r list"
  serial :: int

text \<open>A table is \<open>None\<close> until \<^verbatim>\<open>CREATE TABLE\<close> has run.\<close>

record database =
  dealerships :: "dealership_row table option"
  users :: "user_row table option"
  leads :: "lead_row table option"
  activities :: "activity_row table option"
  email_logs :: "email_log_row table option"
  indexes :: "string list"

datatype db_error =
    UndefinedTable
  | UniqueViolation
  | ForeignKeyViolation
  | StringDataRightTruncation
  | InvalidDatetimeFormat
  | InvalidTextRepresentation

text \<open>What makes an \<^verbatim>\<open>await pool.query(...)\<close> or the code around it fail.\<close>

datatype failure = DbError db_error | JsError js_error

fun bind_db :: "db_error + 'a \<Rightarrow> ('a \<Rightarrow> db_error + 'b) \<Rightarrow> db_error + 'b" where
  "bind_db (Inl e) k = Inl e"
| "bind_db (Inr x) k = k x"

text \<open>
  Storing into a \<^verbatim>\<open>VARCHAR(n)\<close> column: a longer string is an error, unless all that
  exceeds \<open>n\<close> is spaces, which are cut off.
\<close>

definition varchar :: "nat \<Rightarrow> string \<Rightarrow> db_error + string" where
  "varchar n s =
     (if length s \<le> n then Inr s
      else if \<forall>c\<in>set (drop n s). c = CHR '' '' then Inr (take n s)
      else Inl StringDataRightTruncation)"

definition varchar_opt :: "nat \<Rightarrow> string option \<Rightarrow> db_error + string option" where
  "varchar_opt n x =
     (case x of None \<Rightarrow> Inr None | Some s \<Rightarrow> bind_db (varchar n s) (\<lambda>v. Inr (Some v)))"

text \<open>\<^verbatim>\<open>a = b\<close> in SQL is true only for two equal values that are not \<^verbatim>\<open>NULL\<close>.\<close>

definition sql_eq :: "'a option \<Rightarrow> 'a option \<Rightarrow> bool" where
  "sql_eq a b = (case a of None \<Rightarrow> False | Some x \<Rightarrow> (case b of None \<Rightarrow> False | Some y \<Rightarrow> x = y))"



definition dealership_ids :: "database \<Rightarrow> int list" where
  "dealership_ids db = (case dealerships db of None \<Rightarrow> [] | Some t \<Rightarrow> map d_id (rows t))"

definition user_ids :: "database \<Rightarrow> int list" where
  "user_ids db = (case users db of None \<Rightarrow> [] | Some t \<Rightarrow> map u_id (rows t))"

text \<open>\<^verbatim>\<open>CREATE TABLE IF NOT EXISTS\<close>\<close>

definition create_table_if_not_exists :: "'r table option \<Rightarrow> 'r table option" where
  "create_table_if_not_exists t =
     (case t of None \<Rightarrow> Some \<lparr> rows = [], serial = 0 \<rparr> | Some x \<Rightarrow> Some x)"

text \<open>\<^verbatim>\<open>CREATE INDEX IF NOT EXISTS name ON leads(...)\<close>\<close>

definition create_index_if_not_exists :: "string \<Rightarrow> database \<Rightarrow> db_error + database" where
  "create_index_if_not_exists ix db =
     (case leads db of
        None \<Rightarrow> Inl UndefinedTable
      | Some t \<Rightarrow> Inr (if ix \<in> set (indexes db) then db else db \<lparr> indexes := indexes db @ [ix] \<rparr>))"

section \<open>The schema and seed initializer\<close>

text \<open>
  A statement that fails leaves the database as it was (a sequence value it may
  have drawn is not modelled). \<^verbatim>\<open>ON CONFLICT DO NOTHING\<close> skips a row that would
  violate a unique constraint; the only unique constraints are the primary keys
  and \<^verbatim>\<open>users.email\<close>. The skipped row has drawn its id from the sequence already.
\<close>

text \<open>
  \<^verbatim>\<open>INSERT INTO dealerships (name, address, phone, email) VALUES ($1, $2, $3, $4)
  ON CONFLICT DO NOTHING RETURNING id\<close>
\<close>

definition insert_dealership ::
  "timestamp \<Rightarrow> string \<Rightarrow> string \<Rightarrow> string \<Rightarrow> string \<Rightarrow> database
     \<Rightarrow> db_error + (int list \<times> database)" where
  "insert_dealership now n a p e db =
     (case dealerships db of
        None \<Rightarrow> Inl UndefinedTable
      | Some t \<Rightarrow>
          bind_db (varchar 255 n) (\<lambda>n'.
          bind_db (varchar 20 p) (\<lambda>p'.
          bind_db (varchar 255 e) (\<lambda>e'.
            let i = serial t + 1 in
            if i \<in> set (map d_id (rows t))
            then Inr ([], db \<lparr> dealerships := Some (t \<lparr> serial := i \<rparr>) \<rparr>)
            else Inr ([i], db \<lparr> dealerships := Some
                   \<lparr> rows = rows t @
                       [\<lparr> d_id = i, d_name = n', d_address = Some a, d_phone = Some p',
                          d_email = Some e', d_created_at = Some now \<rparr>],
                     serial = i \<rparr> \<rparr>)))))"

text \<open>\<^verbatim>\<open>SELECT id FROM dealerships LIMIT 1\<close>: the first row of the table as it is stored.\<close>

definition select_dealership_limit_1 :: "database \<Rightarrow> db_error + int list" where
  "select_dealership_limit_1 db =
     (case dealerships db of
        None \<Rightarrow> Inl UndefinedTable
      | Some t \<Rightarrow> Inr (map d_id (take 1 (rows t))))"

text \<open>\<^verbatim>\<open>rows[0].id\<close> throws a TypeError on an empty result.\<close>

definition first_id :: "int list \<Rightarrow> failure + int" where
  "first_id ids = (case ids of [] \<Rightarrow> Inl (JsError TypeError) | i # _ \<Rightarrow> Inr i)"

text \<open>
  \<^verbatim>\<open>INSERT INTO users (email, password, name, role, dealership_id) VALUES (...)
  ON CONFLICT (email) DO UPDATE SET password = EXCLUDED.password, name = EXCLUDED.name,
  role = EXCLUDED.role, dealership_id = EXCLUDED.dealership_id\<close>
\<close>

definition upsert_user ::
  "timestamp \<Rightarrow> string \<Rightarrow> string \<Rightarrow> string \<Rightarrow> string \<Rightarrow> int \<Rightarrow> database
     \<Rightarrow> db_error + database" where
  "upsert_user now e p n r d db =
     (case users db of
        None \<Rightarrow> Inl UndefinedTable
      | Some t \<Rightarrow>
          bind_db (varchar 255 e) (\<lambda>e'.
          bind_db (varchar 255 p) (\<lambda>p'.
          bind_db (varchar 255 n) (\<lambda>n'.
          bind_db (varchar 50 r) (\<lambda>r'.
            let i = serial t + 1 in
            if e' \<in> set (map u_email (rows t)) then
              if d \<in> set (dealership_ids db)
              then Inr (db \<lparr> users := Some
                     \<lparr> rows = map (\<lambda>u. if u_email u = e'
                                       then u \<lparr> u_password := p', u_name := n',
                                               u_role := Some r', u_dealership_id := Some d \<rparr>
                                       else u) (rows t),
                       serial = i \<rparr> \<rparr>)
              else Inl ForeignKeyViolation
            else if i \<in> set (map u_id (rows t)) then Inl UniqueViolation
            else if d \<in> set (dealership_ids db)
            then Inr (db \<lparr> users := Some
                   \<lparr> rows = rows t @
                       [\<lparr> u_id = i, u_email = e', u_password = p', u_name = n',
                          u_role = Some r', u_dealership_id = Some d,
                          u_created_at = Some now, u_updated_at = Some now \<rparr>],
                     serial = i \<rparr> \<rparr>)
            else Inl ForeignKeyViolation)))))"

text \<open>\<^verbatim>\<open>SELECT id FROM users WHERE email = $1\<close>\<close>

definition select_user_id :: "string \<Rightarrow> database \<Rightarrow> db_error + int list" where
  "select_user_id e db =
     (case users db of
        None \<Rightarrow> Inl UndefinedTable
      | Some t \<Rightarrow> Inr (map u_id (filter (\<lambda>u. u_email u = e) (rows t))))"

record sample_lead =
  s_name :: string
  s_email :: string
  s_phone :: string
  s_vehicle :: string
  s_source :: string
  s_notes :: string
  s_priority :: string

definition sampleLeads :: "sample_lead list" where
  "sampleLeads =
     [\<lparr> s_name = ''John Smith'', s_email = ''john.smith@email.com'',
        s_phone = ''(555) 123-4567'', s_vehicle = ''Toyota Camry'', s_source = ''website'',
        s_notes = ''Interested in 2024 model, financing needed'', s_priority = ''high'' \<rparr>,
      \<lparr> s_name = ''Sarah Johnson'', s_email = ''sarah.j@email.com'',
        s_phone = ''(555) 987-6543'', s_vehicle = ''Honda Accord'', s_source = ''email'',
        s_notes = ''Looking for reliable family car'', s_priority = ''medium'' \<rparr>,
      \<lparr> s_name = ''Mike Wilson'', s_email = ''mike.wilson@email.com'',
        s_phone = ''(555) 456-7890'', s_vehicle = ''Ford F-150'', s_source = ''phone'',
        s_notes = ''Needs truck for work, cash buyer'', s_priority = ''high'' \<rparr>]"

text \<open>
  \<^verbatim>\<open>INSERT INTO leads (customer_name, customer_email, customer_phone, vehicle_interest,
  source, notes, priority, status, assigned_to, dealership_id) VALUES (...)
  ON CONFLICT DO NOTHING\<close>, with \<^verbatim>\<open>created_at\<close> and \<^verbatim>\<open>updated_at\<close> at their default.
\<close>

definition insert_sample_lead ::
  "timestamp \<Rightarrow> sample_lead \<Rightarrow> int \<Rightarrow> int \<Rightarrow> database \<Rightarrow> db_error + database" where
  "insert_sample_lead now l adminUserId dealershipId db =
     (case leads db of
        None \<Rightarrow> Inl UndefinedTable
      | Some t \<Rightarrow>
          bind_db (varchar 255 (s_name l)) (\<lambda>n'.
          bind_db (varchar 255 (s_email l)) (\<lambda>e'.
          bind_db (varchar 20 (s_phone l)) (\<lambda>p'.
          bind_db (varchar 255 (s_vehicle l)) (\<lambda>v'.
          bind_db (varchar 100 (s_source l)) (\<lambda>src'.
          bind_db (varchar 20 (s_priority l)) (\<lambda>pr'.
          bind_db (varchar 50 ''new'') (\<lambda>st'.
            let i = serial t + 1 in
            if i \<in> set (map lead_id (rows t))
            then Inr (db \<lparr> leads := Some (t \<lparr> serial := i \<rparr>) \<rparr>)
            else if adminUserId \<in> set (user_ids db) \<and> dealershipId \<in> set (dealership_ids db)
            then Inr (db \<lparr> leads := Some
                   \<lparr> rows = rows t @
                       [\<lparr> lead_id = i, customer_name = n', customer_email = Some e',
                          customer_phone = Some p', vehicle_interest = Some v',
                          source = Some src', lead_notes = Some (s_notes l),
                          priority = Some pr', status = Some st',
                          assigned_to = Some adminUserId, dealership_id = Some dealershipId,
                          created_at = Some now, updated_at = Some now \<rparr>],
                     serial = i \<rparr> \<rparr>)
            else Inl ForeignKeyViolation))))))))"

text \<open>
  \<^verbatim>\<open>for (const lead of sampleLeads)\<close>: the first failing statement ends the loop.
  \<open>clock k\<close> is the time at which statement \<open>k\<close> of the run executes.
\<close>

fun insert_sample_leads ::
  "(nat \<Rightarrow> timestamp) \<Rightarrow> nat \<Rightarrow> int \<Rightarrow> int \<Rightarrow> sample_lead list \<Rightarrow> database
     \<Rightarrow> failure option \<times> database" where
  "insert_sample_leads clock k adminUserId dealershipId [] db = (None, db)"
| "insert_sample_leads clock k adminUserId dealershipId (l # ls) db =
     (case insert_sample_lead (clock k) l adminUserId dealershipId db of
        Inl e \<Rightarrow> (Some (DbError e), db)
      | Inr db' \<Rightarrow> insert_sample_leads clock (Suc k) adminUserId dealershipId ls db')"

fun create_indexes :: "string list \<Rightarrow> database \<Rightarrow> failure option \<times> database" where
  "create_indexes [] db = (None, db)"
| "create_indexes (ix # ixs) db =
     (case create_index_if_not_exists ix db of
        Inl e \<Rightarrow> (Some (DbError e), db)
      | Inr db' \<Rightarrow> create_indexes ixs db')"

text \<open>
  \<^verbatim>\<open>if (dealershipResult.rows.length > 0) ... else\<close> the id of an existing dealership.
\<close>

definition resolve_dealership_id :: "int list \<Rightarrow> database \<Rightarrow> failure + int" where
  "resolve_dealership_id returned db =
     (case returned of
        i # _ \<Rightarrow> Inr i
      | [] \<Rightarrow> (case select_dealership_limit_1 db of
                 Inl e \<Rightarrow> Inl (DbError e)
               | Inr existing \<Rightarrow> first_id existing))"

text \<open>
  \<^verbatim>\<open>setupDatabase\<close>. The two results of \<^verbatim>\<open>bcrypt.hash('password123', 10)\<close>, which salts
  at random, are inputs. The \<^verbatim>\<open>catch\<close> clause logs the failure, given here beside
  the database the run leaves.
\<close>

definition setupDatabase ::
  "(nat \<Rightarrow> timestamp) \<Rightarrow> string \<Rightarrow> string \<Rightarrow> database \<Rightarrow> failure option \<times> database" where
  "setupDatabase clock adminPassword repPassword db0 =
     (let db1 = db0 \<lparr> dealerships := create_table_if_not_exists (dealerships db0) \<rparr>;
          db2 = db1 \<lparr> users := create_table_if_not_exists (users db1) \<rparr>;
          db3 = db2 \<lparr> leads := create_table_if_not_exists (leads db2) \<rparr>;
          db4 = db3 \<lparr> activities := create_table_if_not_exists (activities db3) \<rparr>;
          db5 = db4 \<lparr> email_logs := create_table_if_not_exists (email_logs db4) \<rparr>
      in case insert_dealership (clock 0) ''AutoClick Motors''
                ''123 Main Street, Anytown, USA'' ''(555) 123-4567'' ''info@autoclick.com'' db5 of
           Inl e \<Rightarrow> (Some (DbError e), db5)
         | Inr (returned, db6) \<Rightarrow>
        (case resolve_dealership_id returned db6 of
           Inl f \<Rightarrow> (Some f, db6)
         | Inr dealershipId \<Rightarrow>
        (case upsert_user (clock 1) ''admin@autoclick.com'' adminPassword ''Admin User''
                ''admin'' dealershipId db6 of
           Inl e \<Rightarrow> (Some (DbError e), db6)
         | Inr db7 \<Rightarrow>
        (case upsert_user (clock 2) ''rep@autoclick.com'' repPassword ''Sales Representative''
                ''sales_rep'' dealershipId db7 of
           Inl e \<Rightarrow> (Some (DbError e), db7)
         | Inr db8 \<Rightarrow>
        (case select_user_id ''admin@autoclick.com'' db8 of
           Inl e \<Rightarrow> (Some (DbError e), db8)
         | Inr adminUser \<Rightarrow>
        (case first_id adminUser of
           Inl f \<Rightarrow> (Some f, db8)
         | Inr adminUserId \<Rightarrow>
        (case insert_sample_leads clock 3 adminUserId dealershipId sampleLeads db8 of
           (Some f, db9) \<Rightarrow> (Some f, db9)
         | (None, db9) \<Rightarrow>
             create_indexes [''idx_leads_status'', ''idx_leads_dealership'',
                             ''idx_leads_assigned'', ''idx_leads_created''] db9)))))))"

definition empty_database :: database where
  "empty_database =
     \<lparr> dealerships = None, users = None, leads = None, activities = None,
       email_logs = None, indexes = [] \<rparr>"

section \<open>The request handlers\<close>

text \<open>
  The model starts where a handler is entered: the module has loaded, the request
  body is an object, and the rate limiter and, on the protected routes, the check of
  the token have let the request pass. A handler gives a response and the database
  it leaves.

  \<open>req.user\<close> is the payload of the verified token. The tokens that
  \<^verbatim>\<open>/api/auth/login\<close> signs carry \<^verbatim>\<open>userId\<close>, \<^verbatim>\<open>email\<close> and \<^verbatim>\<open>role\<close>;
  \<^verbatim>\<open>req.user.dealership_id\<close> is \<^verbatim>\<open>undefined\<close> for them (\<open>None\<close>), which the
  database driver sends as \<^verbatim>\<open>NULL\<close>.
\<close>

record auth_user =
  userId :: int
  token_email :: string
  role :: string
  user_dealership_id :: "int option"

datatype res_json =
    LeadList "lead_row list"
  | LeadJson lead_row
  | SuccessLead lead_row
  | ErrorJson string
  | FailureJson string

record response =
  res_status :: nat
  res_body :: res_json

subsection \<open>\<^verbatim>\<open>GET /api/leads\<close>\<close>

text \<open>
  A query parameter is a string or missing; \<^verbatim>\<open>if (x)\<close> holds for a string that is
  not empty.
\<close>

record leads_query =
  q_status :: "string option"
  q_dealership_id :: "string option"

definition truthy :: "string option \<Rightarrow> bool" where
  "truthy x = (case x of None \<Rightarrow> False | Some s \<Rightarrow> s \<noteq> [])"

text \<open>
  \<^verbatim>\<open>ORDER BY created_at DESC\<close>: the later row first, \<^verbatim>\<open>NULL\<close> before every time.
  Rows with the same time stay in the order of the table.
\<close>

definition later :: "timestamp option \<Rightarrow> timestamp option \<Rightarrow> bool" where
  "later a b =
     (case b of None \<Rightarrow> False | Some y \<Rightarrow> (case a of None \<Rightarrow> True | Some x \<Rightarrow> y < x))"

fun insert_desc :: "lead_row \<Rightarrow> lead_row list \<Rightarrow> lead_row list" where
  "insert_desc r [] = [r]"
| "insert_desc r (x # xs) =
     (if later (created_at r) (created_at x) then r # x # xs else x # insert_desc r xs)"

definition order_by_created_at_desc :: "lead_row list \<Rightarrow> lead_row list" where
  "order_by_created_at_desc rs = foldl (\<lambda>acc r. insert_desc r acc) [] rs"

text \<open>
  The \<^verbatim>\<open>WHERE\<close> clause the handler builds on the dealership. For an admin the
  parameter is the string of the query, which the database reads as an integer:
  \<open>int4in\<close> is that conversion, \<open>None\<close> where the database rejects the text.
\<close>

definition dealership_clause ::
  "(string \<Rightarrow> int option) \<Rightarrow> auth_user \<Rightarrow> leads_query \<Rightarrow> failure + (lead_row \<Rightarrow> bool)" where
  "dealership_clause int4in user q =
     (if role user \<noteq> ''admin''
      then Inr (\<lambda>r. sql_eq (dealership_id r) (user_dealership_id user))
      else case q_dealership_id q of
             None \<Rightarrow> Inr (\<lambda>r. True)
           | Some s \<Rightarrow>
               if s = [] then Inr (\<lambda>r. True)
               else (case int4in s of
                       None \<Rightarrow> Inl (DbError InvalidTextRepresentation)
                     | Some d \<Rightarrow> Inr (\<lambda>r. sql_eq (dealership_id r) (Some d))))"

definition status_clause :: "leads_query \<Rightarrow> lead_row \<Rightarrow> bool" where
  "status_clause q = (if truthy (q_status q) then (\<lambda>r. sql_eq (status r) (q_status q))
                      else (\<lambda>r. True))"

definition get_leads ::
  "(string \<Rightarrow> int option) \<Rightarrow> auth_user \<Rightarrow> leads_query \<Rightarrow> database \<Rightarrow> response" where
  "get_leads int4in user q db =
     (case leads db of
        None \<Rightarrow> \<lparr> res_status = 500, res_body = ErrorJson ''Failed to get leads'' \<rparr>
      | Some t \<Rightarrow>
          (case dealership_clause int4in user q of
             Inl f \<Rightarrow> \<lparr> res_status = 500, res_body = ErrorJson ''Failed to get leads'' \<rparr>
           | Inr in_dealership \<Rightarrow>
               \<lparr> res_status = 200,
                 res_body = LeadList (order_by_created_at_desc
                   (filter (\<lambda>r. in_dealership r \<and> status_clause q r) (rows t))) \<rparr>))"

text \<open>The lead rows a response carries.\<close>

definition response_rows :: "response \<Rightarrow> lead_row list" where
  "response_rows res =
     (case res_body res of
        LeadList rs \<Rightarrow> rs
      | LeadJson r \<Rightarrow> [r]
      | SuccessLead r \<Rightarrow> [r]
      | ErrorJson m \<Rightarrow> []
      | FailureJson m \<Rightarrow> [])"

subsection \<open>\<^verbatim>\<open>PUT /api/leads/:id\<close>\<close>








subsection \<open>\<^verbatim>\<open>POST /api/process-email\<close>\<close>

text \<open>
  The fields of the request body. \<open>receivedDate\<close> is what the database reads from
  \<^verbatim>\<open>new Date(receivedDate)\<close>: \<open>None\<close> for an invalid date, which a missing key gives.
\<close>

record email_request =
  mail_from :: jsval
  mail_subject :: jsval
  mail_body :: jsval
  receivedDate :: "timestamp option"

text \<open>
  \<^verbatim>\<open>INSERT INTO leads (customer_name, customer_email, customer_phone, vehicle_interest,
  source, notes, priority, status, dealership_id, created_at) VALUES (...) RETURNING *\<close>
  with the values \<^verbatim>\<open>'email'\<close>, \<^verbatim>\<open>'medium'\<close>, \<^verbatim>\<open>'new'\<close> and \<^verbatim>\<open>1\<close> of the handler.
\<close>

definition insert_email_lead ::
  "timestamp \<Rightarrow> lead \<Rightarrow> timestamp option \<Rightarrow> database \<Rightarrow> db_error + (lead_row \<times> database)" where
  "insert_email_lead now leadData received db =
     (case leads db of
        None \<Rightarrow> Inl UndefinedTable
      | Some t \<Rightarrow>
          (case received of
             None \<Rightarrow> Inl InvalidDatetimeFormat
           | Some at \<Rightarrow>
               bind_db (varchar 255 (name leadData)) (\<lambda>n'.
               bind_db (varchar_opt 255 (email leadData)) (\<lambda>e'.
               bind_db (varchar_opt 20 (phone leadData)) (\<lambda>p'.
               bind_db (varchar 255 (vehicle leadData)) (\<lambda>v'.
               bind_db (varchar 100 ''email'') (\<lambda>src'.
               bind_db (varchar 20 ''medium'') (\<lambda>pr'.
               bind_db (varchar 50 ''new'') (\<lambda>st'.
                 let i = serial t + 1;
                     row = \<lparr> lead_id = i, customer_name = n', customer_email = e',
                             customer_phone = p', vehicle_interest = Some v',
                             source = Some src', lead_notes = Some (notes_text leadData),
                             priority = Some pr', status = Some st',
                             assigned_to = None, dealership_id = Some 1,
                             created_at = Some at, updated_at = Some now \<rparr>
                 in if i \<in> set (map lead_id (rows t)) then Inl UniqueViolation
                    else if 1 \<in> set (dealership_ids db)
                    then Inr (row, db \<lparr> leads := Some \<lparr> rows = rows t @ [row], serial = i \<rparr> \<rparr>)
                    else Inl ForeignKeyViolation)))))))))"

definition process_email :: "timestamp \<Rightarrow> email_request \<Rightarrow> database \<Rightarrow> response \<times> database" where
  "process_email now req db =
     (case extractLeadFromEmail (mail_from req) (mail_subject req) (mail_body req) of
        Threw e \<Rightarrow> (\<lparr> res_status = 500, res_body = ErrorJson ''Failed to process email'' \<rparr>, db)
      | Returned None \<Rightarrow>
          (\<lparr> res_status = 400,
             res_body = FailureJson ''Could not extract lead information from email'' \<rparr>, db)
      | Returned (Some leadData) \<Rightarrow>
          (case insert_email_lead now leadData (receivedDate req) db of
             Inl e \<Rightarrow> (\<lparr> res_status = 500, res_body = ErrorJson ''Failed to process email'' \<rparr>, db)
           | Inr (row, db') \<Rightarrow> (\<lparr> res_status = 201, res_body = SuccessLead row \<rparr>, db')))"

text \<open>What two runs of \<^verbatim>\<open>setupDatabase\<close> on an empty database are looked at for.\<close>

definition dealership_names :: "database \<Rightarrow> (int \<times> string) list" where
  "dealership_names db =
     (case dealerships db of None \<Rightarrow> [] | Some t \<Rightarrow> map (\<lambda>d. (d_id d, d_name d)) (rows t))"

definition user_credentials ::
  "database \<Rightarrow> (string \<times> string \<times> string \<times> string option \<times> int option) list" where
  "user_credentials db =
     (case users db of
        None \<Rightarrow> []
      | Some t \<Rightarrow> map (\<lambda>u. (u_email u, u_password u, u_name u, u_role u, u_dealership_id u))
                    (rows t))"

definition first_run :: "failure option \<times> database" where
  "first_run = setupDatabase (\<lambda>k. int k) ''hash-admin-1'' ''hash-rep-1'' empty_database"

definition second_run :: "failure option \<times> database" where
  "second_run = setupDatabase (\<lambda>k. 100 + int k) ''hash-admin-2'' ''hash-rep-2'' (snd first_run)"

text \<open>A database with the tables of the script and the one dealership of its seed.\<close>

definition one_dealership :: database where
  "one_dealership =
     \<lparr> dealerships = Some \<lparr> rows = [\<lparr> d_id = 1, d_name = ''AutoClick Motors'',
                                       d_address = Some ''123 Main Street, Anytown, USA'',
                                       d_phone = Some ''(555) 123-4567'',
                                       d_email = Some ''info@autoclick.com'',
                                       d_created_at = Some 0 \<rparr>], serial = 1 \<rparr>,
       users = Some \<lparr> rows = [], serial = 0 \<rparr>,
       leads = Some \<lparr> rows = [], serial = 0 \<rparr>,
       activities = Some \<lparr> rows = [], serial = 0 \<rparr>,
       email_logs = Some \<lparr> rows = [], serial = 0 \<rparr>,
       indexes = [] \<rparr>"

text \<open>Leads of two dealerships and one of none, named by id, dealership and time.\<close>

definition demo_lead :: "int \<Rightarrow> int option \<Rightarrow> timestamp \<Rightarrow> lead_row" where
  "demo_lead i d at =
     \<lparr> lead_id = i, customer_name = ''John Smith'',
       customer_email = Some ''john.smith@email.com'', customer_phone = Some ''(555) 123-4567'',
       vehicle_interest = Some ''Toyota Camry'', source = Some ''website'',
       lead_notes = Some ''Interested in 2024 model, financing needed'',
       priority = Some ''high'', status = Some ''new'', assigned_to = None,
       dealership_id = d, created_at = Some at, updated_at = Some at \<rparr>"

definition two_dealerships :: database where
  "two_dealerships =
     one_dealership
       \<lparr> dealerships := Some \<lparr> rows = [\<lparr> d_id = 1, d_name = ''AutoClick Motors'',
                                            d_address = Some ''123 Main Street, Anytown, USA'',
                                            d_phone = Some ''(555) 123-4567'',
                                            d_email = Some ''info@autoclick.com'',
                                            d_created_at = Some 0 \<rparr>,
                                          \<lparr> d_id = 2, d_name = ''Second Street Cars'',
                                            d_address = None, d_phone = None, d_email = None,
                                            d_created_at = Some 5 \<rparr>],
                                  serial = 2 \<rparr>,
         leads := Some \<lparr> rows = [demo_lead 1 (Some 1) 10, demo_lead 2 (Some 2) 20,
                                  demo_lead 3 (Some 1) 30, demo_lead 4 None 40],
                          serial = 4 \<rparr> \<rparr>"

text \<open>The lead \<open>r\<close> belongs to the dealership of the caller.\<close>

definition own :: "auth_user \<Rightarrow> lead_row \<Rightarrow> bool" where
  "own user r = (dealership_id r = user_dealership_id user \<and> dealership_id r \<noteq> None)"






section \<open>What the specification calls a match\<close>

text \<open>
  The patterns as the specification words them, without a matching strategy:
  \<open>matches re prev w post\<close> says that the text \<open>w\<close>, with the code unit \<open>prev\<close>
  before it and the text \<open>post\<close> after it, belongs to the pattern \<open>re\<close>.
\<close>

definition within :: "nat option \<Rightarrow> nat \<Rightarrow> bool" where
  "within hi n = (case hi of None \<Rightarrow> True | Some h \<Rightarrow> n \<le> h)"

fun matches :: "regex \<Rightarrow> char option \<Rightarrow> string \<Rightarrow> string \<Rightarrow> bool" where
  "matches [] prev w post = (w = [])"
| "matches (WordBoundary # r) prev w post = (boundary prev (w @ post) \<and> matches r prev w post)"
| "matches (Rep c lo hi # r) prev w post =
     (\<exists>u v. w = u @ v \<and> lo \<le> length u \<and> within hi (length u)
        \<and> (\<forall>x\<in>set u. c x) \<and> matches r (prev_after prev u) v post)"

text \<open>\<open>w\<close> stands between \<open>pre\<close> and \<open>post\<close> with a word boundary on either side.\<close>

definition at_word_boundaries :: "string \<Rightarrow> string \<Rightarrow> string \<Rightarrow> bool" where
  "at_word_boundaries pre w post =
     (boundary (prev_after None pre) (w @ post) \<and> boundary (prev_after None (pre @ w)) post)"

text \<open>
  The phone pattern: 3 digits, an optional dot or hyphen, 3 digits, an optional dot
  or hyphen, 4 digits.
\<close>

definition digits :: "nat \<Rightarrow> string \<Rightarrow> bool" where
  "digits n u = (length u = n \<and> (\<forall>c\<in>set u. is_digit c))"

definition optional_separator :: "string \<Rightarrow> bool" where
  "optional_separator u = (u = [] \<or> u = ''-'' \<or> u = ''.'')"

definition phone_shape :: "string \<Rightarrow> bool" where
  "phone_shape w =
     (\<exists>a s1 b s2 c. w = a @ s1 @ b @ s2 @ c \<and> digits 3 a \<and> optional_separator s1 \<and>
        digits 3 b \<and> optional_separator s2 \<and> digits 4 c)"

definition phone_token :: "string \<Rightarrow> string \<Rightarrow> string \<Rightarrow> bool" where
  "phone_token pre w post = (phone_shape w \<and> at_word_boundaries pre w post)"

text \<open>Whether position \<open>i\<close> of \<open>s\<close> holds a dot or a hyphen, as a number.\<close>

definition sep_at :: "string \<Rightarrow> nat \<Rightarrow> nat" where
  "sep_at s i = (if i < length s \<and> (s ! i = CHR ''-'' \<or> s ! i = CHR ''.'') then 1 else 0)"

text \<open>
  The email pattern: a local part, \<^verbatim>\<open>@\<close>, a domain, a dot and a top-level domain of
  at least 2 letters of either case. The local part and the domain take their
  characters from the classes of the code.
\<close>

definition is_letter :: "char \<Rightarrow> bool" where
  "is_letter c = (is_upper c \<or> is_lower c)"

definition local_char :: "char \<Rightarrow> bool" where
  "local_char c = (is_upper c \<or> is_lower c \<or> is_digit c \<or> c \<in> set ''._%+-'')"

definition domain_char :: "char \<Rightarrow> bool" where
  "domain_char c = (is_upper c \<or> is_lower c \<or> is_digit c \<or> c \<in> set ''.-'')"

definition email_shape :: "string \<Rightarrow> bool" where
  "email_shape w =
     (\<exists>l d t. w = l @ ''@'' @ d @ ''.'' @ t \<and> l \<noteq> [] \<and> (\<forall>c\<in>set l. local_char c) \<and>
        d \<noteq> [] \<and> (\<forall>c\<in>set d. domain_char c) \<and> 2 \<le> length t \<and> (\<forall>c\<in>set t. is_letter c))"

definition email_token :: "string \<Rightarrow> string \<Rightarrow> string \<Rightarrow> bool" where
  "email_token pre w post = (email_shape w \<and> at_word_boundaries pre w post)"

text \<open>The same pattern as a regular expression: \<^verbatim>\<open>[A-Za-z]\<close> for the top-level domain.\<close>

definition emailPattern :: regex where
  "emailPattern =
     [WordBoundary, Rep local_char 1 None, one (CHR ''@''), Rep domain_char 1 None,
      one (CHR ''.''), Rep is_letter 2 None, WordBoundary]"

text \<open>\<open>v\<close> occurs in \<open>s\<close>, the case of the letters set aside.\<close>

definition occurs_ci :: "string \<Rightarrow> string \<Rightarrow> bool" where
  "occurs_ci v s = (\<exists>pre w post. s = pre @ w @ post \<and> toLowerCase w = toLowerCase v)"

text \<open>\<open>v\<close> occurs in the subject \<open>s\<close> or in the body \<open>b\<close>.\<close>

definition mentioned :: "string \<Rightarrow> string \<Rightarrow> string \<Rightarrow> bool" where
  "mentioned s b v = (occurs_ci v s \<or> occurs_ci v b)"

definition is_string :: "jsval \<Rightarrow> bool" where
  "is_string x = (case x of JStr s \<Rightarrow> True | _ \<Rightarrow> False)"

section \<open>The matcher finds the first match\<close>

lemma greedy_Some:
  "lo \<le> n \<Longrightarrow> greedy f lo n = Some r \<Longrightarrow> \<exists>k. lo \<le> k \<and> k \<le> n \<and> f k = Some r"
proof (induction n)
  case 0
  then show ?case by auto
next
  case (Suc n)
  show ?case
  proof (cases "f (Suc n)")
    case None
    with Suc.prems have "lo \<le> n" and "greedy f lo n = Some r"
      by (auto split: if_splits)
    with Suc.IH obtain k where "lo \<le> k" "k \<le> n" "f k = Some r" by blast
    then show ?thesis by (intro exI [of _ k]) simp
  next
    case (Some a)
    with Suc.prems show ?thesis by (intro exI [of _ "Suc n"]) simp
  qed
qed

lemma greedy_None:
  "greedy f lo n = None \<Longrightarrow> lo \<le> k \<Longrightarrow> k \<le> n \<Longrightarrow> f k = None"
proof (induction n)
  case 0
  then show ?case by simp
next
  case (Suc n)
  from Suc.prems(1) have top: "f (Suc n) = None"
    by (simp split: option.splits)
  show ?case
  proof (cases "k = Suc n")
    case True
    with top show ?thesis by simp
  next
    case False
    with Suc.prems have "k \<le> n" "lo \<le> n" by simp_all
    moreover from Suc.prems(1) top \<open>lo \<le> n\<close> have "greedy f lo n = None" by simp
    ultimately show ?thesis using Suc.IH Suc.prems(2) by blast
  qed
qed

lemma takeWhile_take_all: "n \<le> length (takeWhile c s) \<Longrightarrow> \<forall>x\<in>set (take n s). c x"
proof (induction s arbitrary: n)
  case Nil
  then show ?case by simp
next
  case (Cons a s)
  then show ?case by (cases n) (auto split: if_splits)
qed

lemma all_prefix_takeWhile: "\<forall>x\<in>set u. c x \<Longrightarrow> length u \<le> length (takeWhile c (u @ v))"
  by (induction u) auto

lemma capped_le: "capped hi k \<le> k"
  by (simp add: capped_def split: option.splits)

lemma capped_within: "n \<le> capped hi k \<Longrightarrow> within hi n"
  by (simp add: capped_def within_def split: option.splits)

lemma le_capped: "n \<le> k \<Longrightarrow> within hi n \<Longrightarrow> n \<le> capped hi k"
  by (simp add: capped_def within_def split: option.splits)

lemma prev_after_Cons: "prev_after prev (c # p) = prev_after (Some c) p"
  by (simp add: prev_after_def)

lemma prev_after_append: "prev_after (prev_after p u) v = prev_after p (u @ v)"
  by (simp add: prev_after_def)

lemma run_sound:
  "run re prev s = Some n \<Longrightarrow> n \<le> length s \<and> matches re prev (take n s) (drop n s)"
proof (induction re arbitrary: prev s n)
  case Nil
  then show ?case by simp
next
  case (Cons i r)
  show ?case
  proof (cases i)
    case WordBoundary
    with Cons.prems have b: "boundary prev s" and r: "run r prev s = Some n"
      by (auto split: if_splits)
    from Cons.IH [OF r] b WordBoundary show ?thesis by simp
  next
    case (Rep c lo hi)
    define k where "k = capped hi (length (takeWhile c s))"
    define f where "f = (\<lambda>j. map_option (\<lambda>m. j + m) (run r (prev_after prev (take j s)) (drop j s)))"
    from Cons.prems Rep have lo: "lo \<le> k" and g: "greedy f lo k = Some n"
      by (auto simp: k_def f_def Let_def split: if_splits)
    from greedy_Some [OF lo g] obtain j where j: "lo \<le> j" "j \<le> k" "f j = Some n" by blast
    then obtain m where m: "run r (prev_after prev (take j s)) (drop j s) = Some m" and n: "n = j + m"
      by (auto simp: f_def)
    from Cons.IH [OF m] have ml: "m \<le> length (drop j s)"
      and mm: "matches r (prev_after prev (take j s)) (take m (drop j s)) (drop m (drop j s))"
      by simp_all
    from j(2) have jl: "j \<le> length (takeWhile c s)"
      using capped_le [of hi "length (takeWhile c s)"] by (simp add: k_def)
    have jls: "j \<le> length s"
      using jl length_takeWhile_le [of c s] by simp
    have allc: "\<forall>x\<in>set (take j s). c x"
      using takeWhile_take_all [OF jl] .
    have hi: "within hi j"
      using capped_within j(2) by (simp add: k_def)
    have split: "take n s = take j s @ take m (drop j s)"
      by (simp add: n take_add)
    have len: "length (take j s) = j" using jls by simp
    have "matches (Rep c lo hi # r) prev (take n s) (drop n s)"
      apply (simp only: matches.simps)
      apply (rule exI [of _ "take j s"], rule exI [of _ "take m (drop j s)"])
      using split j(1) hi allc mm len by (simp add: n add.commute)
    moreover have "n \<le> length s" using ml jls by (simp add: n)
    ultimately show ?thesis using Rep by simp
  qed
qed

lemma run_complete:
  "matches re prev w post \<Longrightarrow> run re prev (w @ post) \<noteq> None"
proof (induction re arbitrary: prev w)
  case Nil
  then show ?case by simp
next
  case (Cons i r)
  show ?case
  proof (cases i)
    case WordBoundary
    with Cons show ?thesis by simp
  next
    case (Rep c lo hi)
    with Cons.prems obtain u v where uv: "w = u @ v" "lo \<le> length u"
      "within hi (length u)" "\<forall>x\<in>set u. c x"
      "matches r (prev_after prev u) v post"
      by auto
    define s where "s = w @ post"
    define k where "k = capped hi (length (takeWhile c s))"
    define f where "f = (\<lambda>j. map_option (\<lambda>m. j + m) (run r (prev_after prev (take j s)) (drop j s)))"
    have "length u \<le> length (takeWhile c s)"
      using all_prefix_takeWhile [OF uv(4), of "v @ post"] by (simp add: s_def uv(1))
    then have uk: "length u \<le> k"
      using le_capped uv(3) by (simp add: k_def)
    have fu: "f (length u) \<noteq> None"
      using Cons.IH [OF uv(5)] by (simp add: f_def s_def uv(1))
    have "greedy f lo k \<noteq> None"
    proof
      assume "greedy f lo k = None"
      from greedy_None [OF this uv(2) uk] fu show False by simp
    qed
    moreover have "lo \<le> k" using uv(2) uk by simp
    ultimately show ?thesis
      using Rep by (simp add: Let_def k_def f_def s_def)
  qed
qed

lemma scan_Some:
  "scan re prev s = Some w \<Longrightarrow>
   \<exists>pre post. s = pre @ w @ post \<and> matches re (prev_after prev pre) w post \<and>
     (\<forall>pre' w' post'. s = pre' @ w' @ post' \<and> length pre' < length pre
         \<longrightarrow> \<not> matches re (prev_after prev pre') w' post')"
proof (induction s arbitrary: prev)
  case Nil
  then obtain n where "run re prev [] = Some n" by (auto split: option.splits)
  from run_sound [OF this] Nil show ?case by (auto simp: prev_after_def split: option.splits)
next
  case (Cons c s)
  show ?case
  proof (cases "run re prev (c # s)")
    case (Some n)
    with Cons.prems have w: "w = take n (c # s)" by simp
    from run_sound [OF Some] have m: "matches re (prev_after prev []) w (drop n (c # s))"
      by (simp add: w prev_after_def)
    have e: "c # s = [] @ w @ drop n (c # s)"
      by (simp add: w)
    have "\<forall>pre' w' post'. c # s = pre' @ w' @ post' \<and> length pre' < length ([] :: string)
            \<longrightarrow> \<not> matches re (prev_after prev pre') w' post'"
      by simp
    with m e show ?thesis by blast
  next
    case None
    with Cons.prems have "scan re (Some c) s = Some w" by simp
    from Cons.IH [OF this] obtain pre post where pp: "s = pre @ w @ post"
      "matches re (prev_after (Some c) pre) w post"
      "\<forall>pre' w' post'. s = pre' @ w' @ post' \<and> length pre' < length pre
         \<longrightarrow> \<not> matches re (prev_after (Some c) pre') w' post'"
      by blast
    have pa: "\<And>p. prev_after prev (c # p) = prev_after (Some c) p"
      by (simp add: prev_after_def)
    have a: "\<not> matches re (prev_after prev pre') w' post'"
      if h: "c # s = pre' @ w' @ post'" "length pre' < length (c # pre)" for pre' w' post'
    proof (cases pre')
      case Nil
      with h have "c # s = w' @ post'" by simp
      with None run_complete [of re prev w' post'] show ?thesis
        by (auto simp: prev_after_def Nil)
    next
      case (Cons d p)
      with h have "s = p @ w' @ post'" "length p < length pre" "d = c" by simp_all
      with pp(3) have "\<not> matches re (prev_after (Some c) p) w' post'" by blast
      then show ?thesis by (simp add: Cons pa \<open>d = c\<close>)
    qed
    have e: "c # s = (c # pre) @ w @ post"
      using pp(1) by simp
    have m: "matches re (prev_after prev (c # pre)) w post"
      using pp(2) by (simp add: pa)
    from e m a show ?thesis by blast
  qed
qed

lemma scan_None:
  "scan re prev s = None \<Longrightarrow> s = pre @ w @ post \<Longrightarrow> \<not> matches re (prev_after prev pre) w post"
proof (induction s arbitrary: prev pre)
  case Nil
  then have "run re prev [] = None" by (auto split: option.splits)
  with run_complete [of re prev w post] Nil.prems(2) show ?case
    by (auto simp: prev_after_def)
next
  case (Cons c s)
  from Cons.prems(1) have r: "run re prev (c # s) = None" and sc: "scan re (Some c) s = None"
    by (auto split: option.splits)
  show ?case
  proof (cases pre)
    case Nil
    with Cons.prems(2) r run_complete [of re prev w post] show ?thesis
      by (auto simp: prev_after_def)
  next
    case (Cons d p)
    with Cons.prems(2) have "s = p @ w @ post" "d = c" by simp_all
    with Cons.IH [OF sc] have "\<not> matches re (prev_after (Some c) p) w post" by blast
    then show ?thesis by (simp add: Cons \<open>d = c\<close> prev_after_Cons)
  qed
qed


subsection \<open>The phone pattern\<close>

lemma sep_iff:
  "(length u \<le> Suc 0 \<and> (\<forall>x\<in>set u. x = CHR ''-'' \<or> x = CHR ''.'')) = optional_separator u"
  by (cases u) (auto simp: optional_separator_def)

lemma matches_phoneRegex:
  "matches phoneRegex prev w post =
     (phone_shape w \<and> boundary prev (w @ post) \<and> boundary (prev_after prev w) post)"
proof
  assume "matches phoneRegex prev w post"
  then obtain a v1 s1 v2 b v3 s2 v4 c where g:
    "w = a @ v1" "v1 = s1 @ v2" "v2 = b @ v3" "v3 = s2 @ v4" "v4 = c"
    "digits 3 a" "optional_separator s1" "digits 3 b" "optional_separator s2" "digits 4 c"
    "boundary prev (w @ post)"
    "boundary (prev_after (prev_after (prev_after (prev_after (prev_after prev a) s1) b) s2) c) post"
    unfolding phoneRegex_def
    by (auto simp: within_def digits_def sep_iff [symmetric])
  have "w = a @ s1 @ b @ s2 @ c"
    using g(1-5) by simp
  with g(6-10) have "phone_shape w"
    unfolding phone_shape_def by blast
  moreover have "boundary (prev_after prev w) post"
    using g(12) \<open>w = a @ s1 @ b @ s2 @ c\<close> by (simp add: prev_after_append)
  ultimately show "phone_shape w \<and> boundary prev (w @ post) \<and> boundary (prev_after prev w) post"
    using g(11) by simp
next
  assume "phone_shape w \<and> boundary prev (w @ post) \<and> boundary (prev_after prev w) post"
  then obtain a s1 b s2 c where h: "w = a @ s1 @ b @ s2 @ c" "digits 3 a" "optional_separator s1"
        "digits 3 b" "optional_separator s2" "digits 4 c" "boundary prev (w @ post)"
        "boundary (prev_after prev w) post"
    unfolding phone_shape_def by blast
  have e: "prev_after (prev_after (prev_after (prev_after (prev_after prev a) s1) b) s2) c
           = prev_after prev w"
    by (simp add: prev_after_append h(1))
  have s1: "length s1 \<le> Suc 0 \<and> (\<forall>x\<in>set s1. x = CHR ''-'' \<or> x = CHR ''.'')"
    using h(3) by (simp add: sep_iff)
  have s2: "length s2 \<le> Suc 0 \<and> (\<forall>x\<in>set s2. x = CHR ''-'' \<or> x = CHR ''.'')"
    using h(5) by (simp add: sep_iff)
  show "matches phoneRegex prev w post"
    unfolding phoneRegex_def
    apply (simp add: within_def)
    apply (rule conjI, rule h(7))
    apply (rule exI [of _ a], rule exI [of _ "s1 @ b @ s2 @ c"])
    apply (simp add: h(1) h(2) [unfolded digits_def])
    apply (rule exI [of _ s1], rule exI [of _ "b @ s2 @ c"])
    apply (simp add: s1)
    apply (rule exI [of _ b], rule exI [of _ "s2 @ c"])
    apply (simp add: h(4) [unfolded digits_def])
    apply (rule exI [of _ s2], rule exI [of _ "c"])
    apply (simp add: s2 h(6) [unfolded digits_def] e)
    using h(8) h(1) by simp
qed


lemma digit_not_sep: "is_digit x \<Longrightarrow> x \<noteq> CHR ''-'' \<and> x \<noteq> CHR ''.''"
  by (auto simp: is_digit_def)

lemma digits_hd: "digits n u \<Longrightarrow> 0 < n \<Longrightarrow> sep_at (u @ t) 0 = 0"
  by (cases u) (auto simp: digits_def sep_at_def dest: digit_not_sep)

lemma sep_at_skip: "length u = n \<Longrightarrow> sep_at (u @ t) (n + i) = sep_at t i"
  by (auto simp: sep_at_def nth_append)

lemma sep_at_sep: "optional_separator s \<Longrightarrow> digits n u \<Longrightarrow> 0 < n \<Longrightarrow> sep_at (s @ u @ t) 0 = length s"
  using digits_hd [of n u t] by (auto simp: optional_separator_def sep_at_def)

lemma phone_shape_length:
  assumes "phone_shape w"
  shows "length w = 10 + sep_at (w @ post) 3 + sep_at (w @ post) (6 + sep_at (w @ post) 3)"
proof -
  from assms obtain a s1 b s2 c where h: "w = a @ s1 @ b @ s2 @ c" "digits 3 a"
      "optional_separator s1" "digits 3 b" "optional_separator s2" "digits 4 c"
    unfolding phone_shape_def by blast
  have la: "length a = 3" and lb: "length b = 3" and lc: "length c = 4"
    using h by (simp_all add: digits_def)
  have k1: "sep_at (w @ post) 3 = length s1"
    using sep_at_skip [OF la, of "s1 @ b @ s2 @ c @ post" 0] sep_at_sep [OF h(3) h(4), of "s2 @ c @ post"]
    by (simp add: h(1))
  have "sep_at (w @ post) (6 + length s1) = sep_at (s2 @ c @ post) 0"
  proof -
    have "sep_at (w @ post) (6 + length s1) = sep_at ((a @ s1 @ b) @ (s2 @ c @ post)) (length (a @ s1 @ b) + 0)"
      by (simp add: h(1) la lb)
    also have "\<dots> = sep_at (s2 @ c @ post) 0"
      by (rule sep_at_skip) simp
    finally show ?thesis .
  qed
  also have "\<dots> = length s2"
    using sep_at_sep [OF h(5) h(6), of post] by simp
  finally have k2: "sep_at (w @ post) (6 + length s1) = length s2" .
  show ?thesis
    by (simp add: k1 k2) (simp add: h(1) la lb lc)
qed

lemma phone_shape_unique:
  assumes "phone_shape w" "phone_shape w'" "w @ post = w' @ post'"
  shows "w = w'"
proof -
  have "length w = length w'"
    using phone_shape_length [OF assms(1), of post] phone_shape_length [OF assms(2), of post']
    by (simp add: assms(3))
  with assms(3) show ?thesis by simp
qed


section \<open>The lead extractor: properties\<close>

lemma find_vehicle_string:
  "find_vehicle b (JStr s) vs =
     Returned (List.find (\<lambda>v. includes_str (toLowerCase b) v \<or> includes_str (toLowerCase s) v) vs)"
  by (induction vs) auto

lemma extract_try_strings:
  "extract_try (JStr f) (JStr s) (JStr b) =
     Returned \<lparr> name = replace_dots (split_at_first f),
                email = match0 f emailRegex,
                phone = match0 b phoneRegex,
                vehicle = or_default
                  (List.find (\<lambda>v. includes_str (toLowerCase b) v \<or> includes_str (toLowerCase s) v)
                     vehicles) ''Not specified'',
                notes_text = ''Email Subject: '' @ s @ [LF, LF] @ ''Email Body: ''
                               @ substring0 b 500 @ ''...'' \<rparr>"
  by (simp add: extract_try_def find_vehicle_string)

lemma extract_strings:
  "extractLeadFromEmail (JStr f) (JStr s) (JStr b) =
     Returned (Some \<lparr> name = replace_dots (split_at_first f),
                email = match0 f emailRegex,
                phone = match0 b phoneRegex,
                vehicle = or_default
                  (List.find (\<lambda>v. includes_str (toLowerCase b) v \<or> includes_str (toLowerCase s) v)
                     vehicles) ''Not specified'',
                notes_text = ''Email Subject: '' @ s @ [LF, LF] @ ''Email Body: ''
                               @ substring0 b 500 @ ''...'' \<rparr>)"
  by (simp add: extractLeadFromEmail_def extract_try_strings)

text \<open>
  C7. Whatever the three arguments are, \<^verbatim>\<open>extractLeadFromEmail\<close> returns: it never
  throws, and it returns \<^verbatim>\<open>null\<close> exactly when its \<^verbatim>\<open>try\<close> block has thrown.
\<close>

theorem extractLeadFromEmail_never_throws:
  "(\<exists>r. extractLeadFromEmail sender subject body = Returned r) \<and>
   ((\<exists>e. extract_try sender subject body = Threw e)
      = (extractLeadFromEmail sender subject body = Returned None))"
  by (cases "extract_try sender subject body") (simp_all add: extractLeadFromEmail_def)

theorem extractLeadFromEmail_never_throws_witness:
  "extract_try JNull JUndefined (JArr [JNum ''5'']) = Threw TypeError \<and>
   extractLeadFromEmail JNull JUndefined (JArr [JNum ''5'']) = Returned None \<and>
   extract_try (JStr ''a@b.co'') (JObj [(''toString'', JNull)]) (JStr ''Toyota'') = Threw TypeError \<and>
   extractLeadFromEmail (JStr ''a@b.co'') (JObj [(''toString'', JNull)]) (JStr ''Toyota'')
     = Returned None"
proof -
  have a: "extract_try JNull JUndefined (JArr [JNum ''5'']) = Threw TypeError"
    by (simp add: extract_try_def)
  have b: "extract_try (JStr ''a@b.co'') (JObj [(''toString'', JNull)]) (JStr ''Toyota'')
             = Threw TypeError"
    by code_simp
  from a b extractLeadFromEmail_never_throws [of JNull JUndefined "JArr [JNum ''5'']"]
    extractLeadFromEmail_never_throws
      [of "JStr ''a@b.co''" "JObj [(''toString'', JNull)]" "JStr ''Toyota''"]
  show ?thesis by simp
qed

text \<open>
  C3. For strings, the notes are the subject between fixed texts, then the first 500
  code units of the body (the whole body when it is shorter), then the marker
  \<^verbatim>\<open>...\<close>, whatever the length of the body.
\<close>

theorem notes_subject_body_prefix_marker:
  "\<exists>l p. extractLeadFromEmail (JStr f) (JStr s) (JStr b) = Returned (Some l) \<and>
     notes_text l = ''Email Subject: '' @ s @ [LF, LF] @ ''Email Body: '' @ p @ ''...'' \<and>
     prefix p b \<and> length p = min 500 (length b)"
  by (simp add: extract_strings substring0_def take_is_prefix min.commute)

theorem notes_subject_body_prefix_marker_witness:
  "\<exists>l. extractLeadFromEmail (JStr ''ann@example.org'') (JStr ''Hello'') (JStr ''short body'')
           = Returned (Some l) \<and>
     notes_text l = ''Email Subject: Hello'' @ [LF, LF] @ ''Email Body: short body...''"
proof -
  from notes_subject_body_prefix_marker [of "''ann@example.org''" "''Hello''" "''short body''"]
  obtain l p where h:
    "extractLeadFromEmail (JStr ''ann@example.org'') (JStr ''Hello'') (JStr ''short body'')
       = Returned (Some l)"
    "notes_text l = ''Email Subject: '' @ ''Hello'' @ [LF, LF] @ ''Email Body: '' @ p @ ''...''"
    "prefix p ''short body''" "length p = min 500 (length ''short body'')"
    by blast
  from h(3) obtain zs where zs: "''short body'' = p @ zs"
    by (auto simp: prefix_def)
  then have "length ''short body'' = length p + length zs"
    by (metis length_append)
  with h(4) have "zs = []" by simp
  with zs have "p = ''short body''" by simp
  with h(1,2) show ?thesis by simp
qed


lemma matches_phone_token:
  "matches phoneRegex (prev_after None pre) w post = phone_token pre w post"
  by (simp add: matches_phoneRegex phone_token_def at_word_boundaries_def prev_after_append)

lemma match0_None:
  "match0 s re = None \<Longrightarrow> s = pre @ w @ post \<Longrightarrow> \<not> matches re (prev_after None pre) w post"
  unfolding match0_def by (rule scan_None)

lemma match0_Some:
  "match0 s re = Some w \<Longrightarrow>
   \<exists>pre post. s = pre @ w @ post \<and> matches re (prev_after None pre) w post \<and>
     (\<forall>pre' w' post'. s = pre' @ w' @ post' \<and> length pre' < length pre
         \<longrightarrow> \<not> matches re (prev_after None pre') w' post')"
  unfolding match0_def by (rule scan_Some)

lemma same_start:
  assumes "pre @ w @ post = pre' @ w' @ post'" "length pre' = length pre"
  shows "pre' = pre \<and> w @ post = w' @ post'"
  using assms by (metis append_eq_append_conv)

lemma phone_first:
  "case match0 b phoneRegex of
     None \<Rightarrow> \<not> (\<exists>pre w post. b = pre @ w @ post \<and> phone_token pre w post)
   | Some w \<Rightarrow> \<exists>pre post. b = pre @ w @ post \<and> phone_token pre w post \<and>
        (\<forall>pre' w' post'. b = pre' @ w' @ post' \<and> phone_token pre' w' post' \<longrightarrow>
            length pre \<le> length pre' \<and> (length pre' = length pre \<longrightarrow> w' = w))"
proof (cases "match0 b phoneRegex")
  case None
  then show ?thesis
    using match0_None [OF None] by (auto simp: matches_phone_token)
next
  case (Some w)
  from match0_Some [OF Some] obtain pre post where h: "b = pre @ w @ post"
    "phone_token pre w post"
    "\<forall>pre' w' post'. b = pre' @ w' @ post' \<and> length pre' < length pre
         \<longrightarrow> \<not> phone_token pre' w' post'"
    by (auto simp: matches_phone_token)
  have key: "length pre \<le> length pre' \<and> (length pre' = length pre \<longrightarrow> w' = w)"
    if t: "b = pre' @ w' @ post'" "phone_token pre' w' post'" for pre' w' post'
  proof
    show "length pre \<le> length pre'"
    proof (rule ccontr)
      assume "\<not> length pre \<le> length pre'"
      then have "length pre' < length pre" by simp
      with h(3) t(1) have "\<not> phone_token pre' w' post'" by blast
      with t(2) show False by simp
    qed
    show "length pre' = length pre \<longrightarrow> w' = w"
    proof
      assume "length pre' = length pre"
      with h(1) t(1) have "w @ post = w' @ post'"
        using same_start [of pre w post pre' w' post'] by simp
      with h(2) t(2) show "w' = w"
        using phone_shape_unique [of w w' post post'] by (simp add: phone_token_def)
    qed
  qed
  have "\<exists>pre post. b = pre @ w @ post \<and> phone_token pre w post \<and>
        (\<forall>pre' w' post'. b = pre' @ w' @ post' \<and> phone_token pre' w' post' \<longrightarrow>
            length pre \<le> length pre' \<and> (length pre' = length pre \<longrightarrow> w' = w))"
    apply (rule exI [of _ pre], rule exI [of _ post])
    using h(1,2) key by blast
  then show ?thesis by (simp only: Some option.case)
qed

lemma phone_of_extract:
  "extractLeadFromEmail (JStr f) (JStr s) (JStr b) = Returned (Some l) \<Longrightarrow>
   phone l = match0 b phoneRegex"
  by (auto simp: extract_strings)

text \<open>
  C5. For strings, the phone field is absent when the body holds no token of the
  phone pattern at word boundaries; otherwise it is such a token of the body, no
  token starts before it, and it is the only token that starts where it does.
  The sender and the subject have no part in it.
\<close>

theorem phone_is_first_token_of_body:
  "\<exists>l. extractLeadFromEmail (JStr f) (JStr s) (JStr b) = Returned (Some l) \<and>
     (case phone l of
        None \<Rightarrow> \<not> (\<exists>pre w post. b = pre @ w @ post \<and> phone_token pre w post)
      | Some w \<Rightarrow> \<exists>pre post. b = pre @ w @ post \<and> phone_token pre w post \<and>
           (\<forall>pre' w' post'. b = pre' @ w' @ post' \<and> phone_token pre' w' post' \<longrightarrow>
               length pre \<le> length pre' \<and> (length pre' = length pre \<longrightarrow> w' = w))) \<and>
     (\<forall>f' s'. \<exists>l'. extractLeadFromEmail (JStr f') (JStr s') (JStr b) = Returned (Some l') \<and>
                   phone l' = phone l)"
proof -
  define l where "l = \<lparr> name = replace_dots (split_at_first f),
                email = match0 f emailRegex,
                phone = match0 b phoneRegex,
                vehicle = or_default
                  (List.find (\<lambda>v. includes_str (toLowerCase b) v \<or> includes_str (toLowerCase s) v)
                     vehicles) ''Not specified'',
                notes_text = ''Email Subject: '' @ s @ [LF, LF] @ ''Email Body: ''
                               @ substring0 b 500 @ ''...'' \<rparr>"
  have 1: "extractLeadFromEmail (JStr f) (JStr s) (JStr b) = Returned (Some l)"
    by (simp only: extract_strings l_def)
  have p: "phone l = match0 b phoneRegex"
    by (simp add: l_def)
  have 2: "case phone l of
        None \<Rightarrow> \<not> (\<exists>pre w post. b = pre @ w @ post \<and> phone_token pre w post)
      | Some w \<Rightarrow> \<exists>pre post. b = pre @ w @ post \<and> phone_token pre w post \<and>
           (\<forall>pre' w' post'. b = pre' @ w' @ post' \<and> phone_token pre' w' post' \<longrightarrow>
               length pre \<le> length pre' \<and> (length pre' = length pre \<longrightarrow> w' = w))"
    unfolding p by (rule phone_first)
  have 3: "\<forall>f' s'. \<exists>l'. extractLeadFromEmail (JStr f') (JStr s') (JStr b) = Returned (Some l') \<and>
                   phone l' = phone l"
    by (simp add: extract_strings p)
  from 1 2 3 show ?thesis by (intro exI [of _ l] conjI)
qed

theorem phone_is_first_token_of_body_witness:
  "(\<exists>l. extractLeadFromEmail (JStr ''555-000-1111@x.io'') (JStr ''ring 555-222-3333'')
            (JStr ''call 555-123-4567 or 555.987.6543'') = Returned (Some l) \<and>
        phone l = Some ''555-123-4567'' \<and>
        (\<exists>pre post. ''call 555-123-4567 or 555.987.6543'' = pre @ ''555-123-4567'' @ post \<and>
           phone_token pre ''555-123-4567'' post)) \<and>
   (\<exists>l. extractLeadFromEmail (JStr ''555-000-1111@x.io'') (JStr ''ring 555-222-3333'')
            (JStr ''no number: 12345678901, a555-123-4567'') = Returned (Some l) \<and>
        phone l = None \<and>
        \<not> (\<exists>pre w post. ''no number: 12345678901, a555-123-4567'' = pre @ w @ post \<and>
             phone_token pre w post))"
proof -
  have a: "match0 ''call 555-123-4567 or 555.987.6543'' phoneRegex = Some ''555-123-4567''"
    by code_simp
  have b: "match0 ''no number: 12345678901, a555-123-4567'' phoneRegex = None"
    by code_simp
  from phone_is_first_token_of_body
         [of "''555-000-1111@x.io''" "''ring 555-222-3333''" "''call 555-123-4567 or 555.987.6543''"]
  obtain l where l: "extractLeadFromEmail (JStr ''555-000-1111@x.io'') (JStr ''ring 555-222-3333'')
            (JStr ''call 555-123-4567 or 555.987.6543'') = Returned (Some l)"
    "case phone l of
        None \<Rightarrow> \<not> (\<exists>pre w post. ''call 555-123-4567 or 555.987.6543'' = pre @ w @ post \<and> phone_token pre w post)
      | Some w \<Rightarrow> \<exists>pre post. ''call 555-123-4567 or 555.987.6543'' = pre @ w @ post \<and> phone_token pre w post \<and>
           (\<forall>pre' w' post'. ''call 555-123-4567 or 555.987.6543'' = pre' @ w' @ post' \<and> phone_token pre' w' post' \<longrightarrow>
               length pre \<le> length pre' \<and> (length pre' = length pre \<longrightarrow> w' = w))"
    by blast
  from phone_of_extract [OF l(1)] have pl: "phone l = Some ''555-123-4567''"
    by (simp only: a)
  from l(2) have "\<exists>pre post. ''call 555-123-4567 or 555.987.6543'' = pre @ ''555-123-4567'' @ post \<and>
           phone_token pre ''555-123-4567'' post"
    unfolding pl option.case by blast
  with l(1) pl have first: "\<exists>l. extractLeadFromEmail (JStr ''555-000-1111@x.io'') (JStr ''ring 555-222-3333'')
            (JStr ''call 555-123-4567 or 555.987.6543'') = Returned (Some l) \<and>
        phone l = Some ''555-123-4567'' \<and>
        (\<exists>pre post. ''call 555-123-4567 or 555.987.6543'' = pre @ ''555-123-4567'' @ post \<and>
           phone_token pre ''555-123-4567'' post)"
    by blast
  from phone_is_first_token_of_body
         [of "''555-000-1111@x.io''" "''ring 555-222-3333''" "''no number: 12345678901, a555-123-4567''"]
  obtain m where m: "extractLeadFromEmail (JStr ''555-000-1111@x.io'') (JStr ''ring 555-222-3333'')
            (JStr ''no number: 12345678901, a555-123-4567'') = Returned (Some m)"
    "case phone m of
        None \<Rightarrow> \<not> (\<exists>pre w post. ''no number: 12345678901, a555-123-4567'' = pre @ w @ post \<and> phone_token pre w post)
      | Some w \<Rightarrow> \<exists>pre post. ''no number: 12345678901, a555-123-4567'' = pre @ w @ post \<and> phone_token pre w post \<and>
           (\<forall>pre' w' post'. ''no number: 12345678901, a555-123-4567'' = pre' @ w' @ post' \<and> phone_token pre' w' post' \<longrightarrow>
               length pre \<le> length pre' \<and> (length pre' = length pre \<longrightarrow> w' = w))"
    by blast
  from phone_of_extract [OF m(1)] have pm: "phone m = None"
    by (simp only: b)
  from m(2) have "\<not> (\<exists>pre w post. ''no number: 12345678901, a555-123-4567'' = pre @ w @ post \<and>
             phone_token pre w post)"
    unfolding pm option.case .
  with m(1) pm have second: "\<exists>l. extractLeadFromEmail (JStr ''555-000-1111@x.io'') (JStr ''ring 555-222-3333'')
            (JStr ''no number: 12345678901, a555-123-4567'') = Returned (Some l) \<and>
        phone l = None \<and>
        \<not> (\<exists>pre w post. ''no number: 12345678901, a555-123-4567'' = pre @ w @ post \<and>
             phone_token pre w post)"
    by blast
  from first second show ?thesis by (rule conjI)
qed


subsection \<open>The vehicle\<close>

lemma includes_lower_occurs:
  assumes "toLowerCase v = v"
  shows "includes_str (toLowerCase s) v = occurs_ci v s"
proof
  assume "includes_str (toLowerCase s) v"
  then obtain ps ss where "map toLowerChar s = ps @ (v @ ss)"
    by (auto simp: includes_str_def sublist_def toLowerCase_def)
  then obtain pre rest where 1: "s = pre @ rest" "map toLowerChar rest = v @ ss"
    by (metis map_eq_append_conv)
  then obtain w post where 2: "rest = w @ post" "map toLowerChar w = v"
    by (metis map_eq_append_conv)
  from 1 2 assms show "occurs_ci v s"
    unfolding occurs_ci_def toLowerCase_def by (intro exI [of _ pre] exI [of _ w] exI [of _ post]) simp
next
  assume "occurs_ci v s"
  then obtain pre w post where "s = pre @ w @ post" "toLowerCase w = v"
    using assms by (auto simp: occurs_ci_def)
  then have "toLowerCase s = toLowerCase pre @ v @ toLowerCase post"
    by (auto simp: toLowerCase_def)
  then show "includes_str (toLowerCase s) v"
    by (simp add: includes_str_def)
qed

lemma vehicles_lower: "list_all (\<lambda>v. toLowerCase v = v \<and> v \<noteq> []) vehicles"
  by code_simp

lemma vehicle_lower: "v \<in> set vehicles \<Longrightarrow> toLowerCase v = v \<and> v \<noteq> []"
  using vehicles_lower by (simp add: list_all_iff)

lemma find_vehicles_mentioned:
  "List.find (\<lambda>v. includes_str (toLowerCase b) v \<or> includes_str (toLowerCase s) v) vehicles
     = List.find (mentioned s b) vehicles"
  by (rule find_cong) (auto simp: mentioned_def includes_lower_occurs vehicle_lower)

lemma vehicle_of_extract:
  "extractLeadFromEmail (JStr f) (JStr s) (JStr b) = Returned (Some l) \<Longrightarrow>
   vehicle l = or_default (List.find (mentioned s b) vehicles) ''Not specified''"
  by (auto simp: extract_strings find_vehicles_mentioned)

lemma or_default_vehicle:
  "List.find P vehicles = Some v \<Longrightarrow> or_default (Some v) d = v"
proof -
  assume "List.find P vehicles = Some v"
  then have "v \<in> set vehicles"
    by (metis find_Some_iff nth_mem)
  with vehicle_lower [of v] show ?thesis
    by (simp add: or_default_def)
qed


text \<open>
  C6, as amended. For strings, the vehicle is the sentinel \<^verbatim>\<open>Not specified\<close> when no
  keyword of the vocabulary occurs, the case of the letters set aside, in the subject
  or in the body; otherwise it is the first keyword, in the order of the vocabulary,
  that occurs in the subject or occurs in the body.
\<close>

theorem vehicle_first_keyword_of_subject_or_body:
  "\<exists>l. extractLeadFromEmail (JStr f) (JStr s) (JStr b) = Returned (Some l) \<and>
     vehicles = [''toyota'', ''honda'', ''ford'', ''chevrolet'', ''nissan'', ''bmw'',
                 ''mercedes'', ''audi''] \<and>
     ((\<forall>v\<in>set vehicles. \<not> occurs_ci v s \<and> \<not> occurs_ci v b) \<longrightarrow>
        vehicle l = ''Not specified'') \<and>
     ((\<exists>v\<in>set vehicles. occurs_ci v s \<or> occurs_ci v b) \<longrightarrow>
        (\<exists>i<length vehicles. vehicle l = vehicles ! i \<and>
           (occurs_ci (vehicles ! i) s \<or> occurs_ci (vehicles ! i) b) \<and>
           (\<forall>j<i. \<not> occurs_ci (vehicles ! j) s \<and> \<not> occurs_ci (vehicles ! j) b)))"
proof -
  obtain l where l: "extractLeadFromEmail (JStr f) (JStr s) (JStr b) = Returned (Some l)"
    by (simp add: extract_strings)
  note v = vehicle_of_extract [OF l]
  have none: "vehicle l = ''Not specified''"
    if "\<forall>v\<in>set vehicles. \<not> occurs_ci v s \<and> \<not> occurs_ci v b"
  proof -
    from that have "List.find (mentioned s b) vehicles = None"
      by (simp add: find_None_iff mentioned_def)
    with v show ?thesis by (simp add: or_default_def)
  qed
  have some: "\<exists>i<length vehicles. vehicle l = vehicles ! i \<and>
           (occurs_ci (vehicles ! i) s \<or> occurs_ci (vehicles ! i) b) \<and>
           (\<forall>j<i. \<not> occurs_ci (vehicles ! j) s \<and> \<not> occurs_ci (vehicles ! j) b)"
    if "\<exists>v\<in>set vehicles. occurs_ci v s \<or> occurs_ci v b"
  proof -
    from that have "List.find (mentioned s b) vehicles \<noteq> None"
      by (auto simp: find_None_iff mentioned_def)
    then obtain x where x: "List.find (mentioned s b) vehicles = Some x" by blast
    then obtain i where i: "i < length vehicles" "mentioned s b (vehicles ! i)"
        "x = vehicles ! i" "\<forall>j<i. \<not> mentioned s b (vehicles ! j)"
      by (auto simp: find_Some_iff)
    from v x have "vehicle l = x"
      using or_default_vehicle [OF x] by simp
    with i show ?thesis
      by (intro exI [of _ i]) (simp add: mentioned_def)
  qed
  from l none some show ?thesis
    by (intro exI [of _ l] conjI impI) (simp_all add: vehicles_def)
qed


theorem vehicle_first_keyword_of_subject_or_body_witness:
  "(\<exists>l. extractLeadFromEmail (JStr ''kim@example.org'') (JStr ''A HONDA or a Toyota?'')
           (JStr ''My Ford is old.'') = Returned (Some l) \<and> vehicle l = ''toyota'') \<and>
   (\<exists>l. extractLeadFromEmail (JStr ''kim@example.org'') (JStr ''toy'') (JStr ''ota'')
           = Returned (Some l) \<and> vehicle l = ''Not specified'')"
proof -
  let ?s = "''A HONDA or a Toyota?''" and ?b = "''My Ford is old.''"
  from vehicle_first_keyword_of_subject_or_body [of "''kim@example.org''" ?s ?b]
  obtain l where l: "extractLeadFromEmail (JStr ''kim@example.org'') (JStr ?s) (JStr ?b)
        = Returned (Some l)"
    and some: "(\<exists>v\<in>set vehicles. occurs_ci v ?s \<or> occurs_ci v ?b) \<longrightarrow>
        (\<exists>i<length vehicles. vehicle l = vehicles ! i \<and>
           (occurs_ci (vehicles ! i) ?s \<or> occurs_ci (vehicles ! i) ?b) \<and>
           (\<forall>j<i. \<not> occurs_ci (vehicles ! j) ?s \<and> \<not> occurs_ci (vehicles ! j) ?b))"
    by blast
  have occ: "occurs_ci ''toyota'' ?s"
    unfolding occurs_ci_def
    by (intro exI [of _ "''A HONDA or a ''"] exI [of _ "''Toyota''"] exI [of _ "''?''"] conjI)
       code_simp+
  have t0: "vehicles ! 0 = ''toyota''" and tin: "''toyota'' \<in> set vehicles"
    by (simp_all add: vehicles_def)
  from some occ tin obtain i where i: "vehicle l = vehicles ! i"
      "\<forall>j<i. \<not> occurs_ci (vehicles ! j) ?s \<and> \<not> occurs_ci (vehicles ! j) ?b"
    by blast
  have "i = 0"
  proof (rule ccontr)
    assume "i \<noteq> 0"
    then have "0 < i" by simp
    with i(2) have "\<not> occurs_ci (vehicles ! 0) ?s" by blast
    with occ t0 show False by simp
  qed
  with i(1) t0 have "vehicle l = ''toyota''" by simp
  with l have first: "\<exists>l. extractLeadFromEmail (JStr ''kim@example.org'') (JStr ?s) (JStr ?b)
        = Returned (Some l) \<and> vehicle l = ''toyota''"
    by blast
  from vehicle_first_keyword_of_subject_or_body [of "''kim@example.org''" "''toy''" "''ota''"]
  obtain m where m: "extractLeadFromEmail (JStr ''kim@example.org'') (JStr ''toy'') (JStr ''ota'')
        = Returned (Some m)"
    and none: "(\<forall>v\<in>set vehicles. \<not> occurs_ci v ''toy'' \<and> \<not> occurs_ci v ''ota'') \<longrightarrow>
        vehicle m = ''Not specified''"
    by blast
  have "list_all (\<lambda>v. \<not> includes_str (toLowerCase ''toy'') v \<and>
                       \<not> includes_str (toLowerCase ''ota'') v) vehicles"
    by code_simp
  then have "\<forall>v\<in>set vehicles. \<not> occurs_ci v ''toy'' \<and> \<not> occurs_ci v ''ota''"
    by (simp add: list_all_iff includes_lower_occurs vehicle_lower)
  with none have "vehicle m = ''Not specified''" by blast
  with m have second: "\<exists>l. extractLeadFromEmail (JStr ''kim@example.org'') (JStr ''toy'')
        (JStr ''ota'') = Returned (Some l) \<and> vehicle l = ''Not specified''"
    by blast
  from first second show ?thesis by (rule conjI)
qed

text \<open>
  C6 as it was stated fails where a keyword spans the end of the subject and the
  start of the body: it occurs in the concatenation, in neither part, and the
  vehicle is the sentinel.
\<close>

theorem vehicle_concatenation_counterexample:
  "extractLeadFromEmail (JStr ''kim@example.org'') (JStr ''toy'') (JStr ''ota'') =
     Returned (Some \<lparr> name = ''kim'', email = Some ''kim@example.org'', phone = None,
                      vehicle = ''Not specified'',
                      notes_text = ''Email Subject: toy'' @ [LF, LF] @ ''Email Body: ota...'' \<rparr>) \<and>
   ''toyota'' \<in> set vehicles \<and>
   occurs_ci ''toyota'' (''toy'' @ ''ota'')"
proof (intro conjI)
  show "extractLeadFromEmail (JStr ''kim@example.org'') (JStr ''toy'') (JStr ''ota'') =
     Returned (Some \<lparr> name = ''kim'', email = Some ''kim@example.org'', phone = None,
                      vehicle = ''Not specified'',
                      notes_text = ''Email Subject: toy'' @ [LF, LF] @ ''Email Body: ota...'' \<rparr>)"
    by code_simp
  show "''toyota'' \<in> set vehicles"
    by (simp add: vehicles_def)
  show "occurs_ci ''toyota'' (''toy'' @ ''ota'')"
    unfolding occurs_ci_def
    by (intro exI [of _ "[]"] exI [of _ "''toyota''"] conjI) simp_all
qed


subsection \<open>The email address\<close>

lemma matches_RepE:
  assumes "matches (Rep c lo hi # r) prev w post"
  obtains u v where "w = u @ v" "lo \<le> length u" "within hi (length u)" "\<forall>x\<in>set u. c x"
    "matches r (prev_after prev u) v post"
  using assms by auto

lemma matches_RepI:
  "w = u @ v \<Longrightarrow> lo \<le> length u \<Longrightarrow> within hi (length u) \<Longrightarrow> \<forall>x\<in>set u. c x \<Longrightarrow>
   matches r (prev_after prev u) v post \<Longrightarrow> matches (Rep c lo hi # r) prev w post"
  by auto

lemma exactly_one: "(Suc 0 \<le> length u \<and> length u \<le> Suc 0 \<and> (\<forall>x\<in>set u. x = c)) = (u = [c])"
  by (cases u) auto

lemma matches_emailPattern:
  "matches emailPattern prev w post =
     (email_shape w \<and> boundary prev (w @ post) \<and> boundary (prev_after prev w) post)"
proof
  assume "matches emailPattern prev w post"
  then have b0: "boundary prev (w @ post)"
    and m1: "matches [Rep local_char 1 None, one (CHR ''@''), Rep domain_char 1 None,
               one (CHR ''.''), Rep is_letter 2 None, WordBoundary] prev w post"
    by (simp_all add: emailPattern_def)
  from m1 obtain l v1 where 1: "w = l @ v1" "1 \<le> length l" "\<forall>c\<in>set l. local_char c"
    and m2: "matches [one (CHR ''@''), Rep domain_char 1 None,
               one (CHR ''.''), Rep is_letter 2 None, WordBoundary] (prev_after prev l) v1 post"
    by (rule matches_RepE)
  from m2 obtain a v2 where 2: "v1 = a @ v2" "1 \<le> length a" "within (Some 1) (length a)"
      "\<forall>x\<in>set a. x = CHR ''@''"
    and m3: "matches [Rep domain_char 1 None, one (CHR ''.''), Rep is_letter 2 None,
               WordBoundary] (prev_after (prev_after prev l) a) v2 post"
    unfolding one_def by (rule matches_RepE)
  from m3 obtain d v3 where 3: "v2 = d @ v3" "1 \<le> length d" "\<forall>c\<in>set d. domain_char c"
    and m4: "matches [one (CHR ''.''), Rep is_letter 2 None, WordBoundary]
               (prev_after (prev_after (prev_after prev l) a) d) v3 post"
    by (rule matches_RepE)
  from m4 obtain p v4 where 4: "v3 = p @ v4" "1 \<le> length p" "within (Some 1) (length p)"
      "\<forall>x\<in>set p. x = CHR ''.''"
    and m5: "matches [Rep is_letter 2 None, WordBoundary]
               (prev_after (prev_after (prev_after (prev_after prev l) a) d) p) v4 post"
    unfolding one_def by (rule matches_RepE)
  from m5 obtain t v5 where 5: "v4 = t @ v5" "2 \<le> length t" "\<forall>c\<in>set t. is_letter c"
    and m6: "matches [WordBoundary]
               (prev_after (prev_after (prev_after (prev_after (prev_after prev l) a) d) p) t)
               v5 post"
    by (rule matches_RepE)
  from m6 have 6: "v5 = []"
    by simp
  from m6 have b1: "boundary
               (prev_after (prev_after (prev_after (prev_after (prev_after prev l) a) d) p) t) post"
    by (simp add: 6)
  have "Suc 0 \<le> length a" "length a \<le> Suc 0"
    using 2(2,3) by (simp_all add: within_def)
  with 2(4) have a: "a = ''@''"
    using exactly_one [of a "CHR ''@''"] by blast
  have "Suc 0 \<le> length p" "length p \<le> Suc 0"
    using 4(2,3) by (simp_all add: within_def)
  with 4(4) have p: "p = ''.''"
    using exactly_one [of p "CHR ''.''"] by blast
  have e: "w = l @ ''@'' @ d @ ''.'' @ t"
    using 1(1) 2(1) 3(1) 4(1) 5(1) 6 a p by simp
  from 1(2) 3(2) have "l \<noteq> []" "d \<noteq> []" by auto
  with e 1(3) 3(3) 5(2,3) have "email_shape w"
    unfolding email_shape_def by blast
  moreover have "boundary (prev_after prev w) post"
    using b1 e a p by (simp add: prev_after_append)
  ultimately show "email_shape w \<and> boundary prev (w @ post) \<and> boundary (prev_after prev w) post"
    using b0 by simp
next
  assume "email_shape w \<and> boundary prev (w @ post) \<and> boundary (prev_after prev w) post"
  then obtain l d t where h: "w = l @ ''@'' @ d @ ''.'' @ t" "l \<noteq> []" "\<forall>c\<in>set l. local_char c"
      "d \<noteq> []" "\<forall>c\<in>set d. domain_char c" "2 \<le> length t" "\<forall>c\<in>set t. is_letter c"
      "boundary prev (w @ post)" "boundary (prev_after prev w) post"
    unfolding email_shape_def by blast
  have e: "prev_after (prev_after (prev_after (prev_after (prev_after prev l) ''@'') d) ''.'') t
           = prev_after prev w"
    by (simp add: prev_after_append h(1))
  have m6: "matches [WordBoundary]
               (prev_after (prev_after (prev_after (prev_after (prev_after prev l) ''@'') d) ''.'') t)
               [] post"
    using h(9) by (simp add: e)
  have m5: "matches [Rep is_letter 2 None, WordBoundary]
               (prev_after (prev_after (prev_after (prev_after prev l) ''@'') d) ''.'') t post"
    by (rule matches_RepI [where u = t and v = "[]"]) (use h(6,7) m6 in \<open>simp_all add: within_def\<close>)
  have m4: "matches [one (CHR ''.''), Rep is_letter 2 None, WordBoundary]
               (prev_after (prev_after (prev_after prev l) ''@'') d) (''.'' @ t) post"
    unfolding one_def
    by (rule matches_RepI [where u = "''.''" and v = t]) (use m5 in \<open>simp_all add: within_def one_def del: matches.simps\<close>)
  have m3: "matches [Rep domain_char 1 None, one (CHR ''.''), Rep is_letter 2 None,
               WordBoundary] (prev_after (prev_after prev l) ''@'') (d @ ''.'' @ t) post"
    unfolding one_def
    by (rule matches_RepI [where u = d and v = "''.'' @ t"])
       (use h(4,5) m4 in \<open>simp_all add: within_def Suc_le_eq one_def del: matches.simps\<close>)
  have m2: "matches [one (CHR ''@''), Rep domain_char 1 None,
               one (CHR ''.''), Rep is_letter 2 None, WordBoundary] (prev_after prev l)
               (''@'' @ d @ ''.'' @ t) post"
    unfolding one_def
    by (rule matches_RepI [where u = "''@''" and v = "d @ ''.'' @ t"])
       (use m3 in \<open>simp_all add: within_def one_def del: matches.simps\<close>)
  have m1: "matches [Rep local_char 1 None, one (CHR ''@''), Rep domain_char 1 None,
               one (CHR ''.''), Rep is_letter 2 None, WordBoundary] prev w post"
    unfolding one_def
    by (rule matches_RepI [where u = l and v = "''@'' @ d @ ''.'' @ t"])
       (use h(1,2,3) m2 in \<open>simp_all add: within_def Suc_le_eq one_def del: matches.simps\<close>)
  with h(8) show "matches emailPattern prev w post"
    by (simp add: emailPattern_def)
qed

lemma matches_email_token:
  "matches emailPattern (prev_after None pre) w post = email_token pre w post"
  by (simp add: matches_emailPattern email_token_def at_word_boundaries_def prev_after_append)

lemma email_of_extract:
  "extractLeadFromEmail (JStr f) (JStr s) (JStr b) = Returned (Some l) \<Longrightarrow>
   email l = match0 f emailRegex"
  by (auto simp: extract_strings)

text \<open>
  C2 does not hold of the code: the class \<^verbatim>\<open>[A-Z|a-z]\<close> of the regular expression
  takes the bar for a letter. The sender \<^verbatim>\<open>a@b.c|d\<close> holds no token of the email
  pattern, whose top-level domain is at least 2 letters, and yet the email field
  is the whole sender; in \<^verbatim>\<open>a@b.cd|e\<close> the first token is \<^verbatim>\<open>a@b.cd\<close> and the email
  field runs on to the end.
\<close>

theorem email_bar_taken_for_letter:
  "extractLeadFromEmail (JStr ''a@b.c|d'') (JStr ''hello'') (JStr ''world'') =
     Returned (Some \<lparr> name = ''a'', email = Some ''a@b.c|d'', phone = None,
                      vehicle = ''Not specified'',
                      notes_text = ''Email Subject: hello'' @ [LF, LF] @ ''Email Body: world...'' \<rparr>) \<and>
   \<not> (\<exists>pre w post. ''a@b.c|d'' = pre @ w @ post \<and> email_token pre w post) \<and>
   match0 ''a@b.cd|e'' emailRegex = Some ''a@b.cd|e'' \<and>
   email_token [] ''a@b.cd'' ''|e''"
proof (intro conjI)
  show "extractLeadFromEmail (JStr ''a@b.c|d'') (JStr ''hello'') (JStr ''world'') =
     Returned (Some \<lparr> name = ''a'', email = Some ''a@b.c|d'', phone = None,
                      vehicle = ''Not specified'',
                      notes_text = ''Email Subject: hello'' @ [LF, LF] @ ''Email Body: world...'' \<rparr>)"
    by code_simp
  have "match0 ''a@b.c|d'' emailPattern = None"
    by code_simp
  from match0_None [OF this]
  show "\<not> (\<exists>pre w post. ''a@b.c|d'' = pre @ w @ post \<and> email_token pre w post)"
    by (auto simp: matches_email_token)
  show "match0 ''a@b.cd|e'' emailRegex = Some ''a@b.cd|e''"
    by code_simp
  have "run emailPattern None ''a@b.cd|e'' = Some 6"
    by code_simp
  from run_sound [OF this] have "matches emailPattern (prev_after None []) ''a@b.cd'' ''|e''"
    by (simp add: prev_after_def)
  then show "email_token [] ''a@b.cd'' ''|e''"
    by (simp only: matches_email_token)
qed


section \<open>The email ingestion endpoint\<close>

lemma varchar_fits: "length s \<le> n \<Longrightarrow> varchar n s = Inr s"
  by (simp add: varchar_def)
























text \<open>
  C10. For three strings the extractor returns a record, whose vehicle is the
  sentinel when no keyword occurs. So the extractor returns \<^verbatim>\<open>null\<close>, and the
  handler answers 400, only when the sender, the subject or the body is no string.
\<close>

theorem null_only_for_non_strings:
  "(\<exists>l. extractLeadFromEmail (JStr f) (JStr s) (JStr b) = Returned (Some l) \<and>
        name l = replace_dots (split_at_first f) \<and>
        notes_text l = ''Email Subject: '' @ s @ [LF, LF] @ ''Email Body: '' @ take 500 b @ ''...'' \<and>
        ((\<forall>v\<in>set vehicles. \<not> mentioned s b v) \<longrightarrow> vehicle l = ''Not specified'')) \<and>
   (extractLeadFromEmail x y z = Returned None \<longrightarrow>
      \<not> (is_string x \<and> is_string y \<and> is_string z)) \<and>
   (res_status (fst (process_email now req db)) = 400 \<longrightarrow>
      \<not> (is_string (mail_from req) \<and> is_string (mail_subject req) \<and> is_string (mail_body req)))"
proof -
  obtain l where l: "extractLeadFromEmail (JStr f) (JStr s) (JStr b) = Returned (Some l)"
    by (simp add: extract_strings)
  have 1: "name l = replace_dots (split_at_first f)"
    and 2: "notes_text l = ''Email Subject: '' @ s @ [LF, LF] @ ''Email Body: '' @ take 500 b @ ''...''"
    using l by (auto simp: extract_strings substring0_def)
  have 3: "vehicle l = ''Not specified''" if "\<forall>v\<in>set vehicles. \<not> mentioned s b v"
  proof -
    from that have "List.find (mentioned s b) vehicles = None"
      by (simp add: find_None_iff)
    with vehicle_of_extract [OF l] show ?thesis
      by (simp add: or_default_def)
  qed
  have 4: "\<not> (is_string x \<and> is_string y \<and> is_string z)"
    if n: "extractLeadFromEmail x y z = Returned None" for x y z
  proof
    assume "is_string x \<and> is_string y \<and> is_string z"
    then obtain f' s' b' where "x = JStr f'" "y = JStr s'" "z = JStr b'"
      by (cases x; cases y; cases z) (simp_all add: is_string_def)
    with n show False by (simp add: extract_strings)
  qed
  have 5: "\<not> (is_string (mail_from req) \<and> is_string (mail_subject req) \<and> is_string (mail_body req))"
    if "res_status (fst (process_email now req db)) = 400"
  proof -
    from that have "extractLeadFromEmail (mail_from req) (mail_subject req) (mail_body req)
        = Returned None"
      by (auto simp: process_email_def split: outcome.splits option.splits sum.splits prod.splits)
    then show ?thesis by (rule 4)
  qed
  from l 1 2 3 4 5 show ?thesis by blast
qed

theorem null_only_for_non_strings_witness:
  "(\<exists>l. extractLeadFromEmail (JStr []) (JStr []) (JStr []) = Returned (Some l) \<and>
        name l = [] \<and> email l = None \<and> phone l = None \<and> vehicle l = ''Not specified'' \<and>
        notes_text l = ''Email Subject: '' @ [LF, LF] @ ''Email Body: ...'') \<and>
   extractLeadFromEmail (JStr ''a@b.co'') JUndefined (JStr ''hello'') = Returned None \<and>
   \<not> is_string JUndefined \<and>
   res_status (fst (process_email 5
      \<lparr> mail_from = JStr ''a@b.co'', mail_subject = JUndefined, mail_body = JStr ''hello'',
        receivedDate = Some 3 \<rparr> one_dealership)) = 400"
proof -
  from null_only_for_non_strings [of "[]" "[]" "[]" "JStr ''a@b.co''" JUndefined "JStr ''hello''"]
  obtain l where l: "extractLeadFromEmail (JStr []) (JStr []) (JStr []) = Returned (Some l)"
      "name l = replace_dots (split_at_first [])"
      "notes_text l = ''Email Subject: '' @ [] @ [LF, LF] @ ''Email Body: '' @ take 500 [] @ ''...''"
      "(\<forall>v\<in>set vehicles. \<not> mentioned [] [] v) \<longrightarrow> vehicle l = ''Not specified''"
    and u: "extractLeadFromEmail (JStr ''a@b.co'') JUndefined (JStr ''hello'') = Returned None \<longrightarrow>
      \<not> (is_string (JStr ''a@b.co'') \<and> is_string JUndefined \<and> is_string (JStr ''hello''))"
    by blast
  have "\<forall>v\<in>set vehicles. \<not> mentioned [] [] v"
    using vehicle_lower by (auto simp: mentioned_def occurs_ci_def toLowerCase_def)
  with l(4) have v: "vehicle l = ''Not specified''" by blast
  have e: "email l = None" and p: "phone l = None"
    using email_of_extract [OF l(1)] phone_of_extract [OF l(1)] by (simp_all, code_simp+)
  have n: "extractLeadFromEmail (JStr ''a@b.co'') JUndefined (JStr ''hello'') = Returned None"
    by code_simp
  with u have s: "\<not> is_string JUndefined"
    by (simp add: is_string_def)
  have r: "res_status (fst (process_email 5
      \<lparr> mail_from = JStr ''a@b.co'', mail_subject = JUndefined, mail_body = JStr ''hello'',
        receivedDate = Some 3 \<rparr> one_dealership)) = 400"
    by (simp add: process_email_def n)
  from l(1,2,3) v e p have "\<exists>l. extractLeadFromEmail (JStr []) (JStr []) (JStr []) = Returned (Some l) \<and>
        name l = [] \<and> email l = None \<and> phone l = None \<and> vehicle l = ''Not specified'' \<and>
        notes_text l = ''Email Subject: '' @ [LF, LF] @ ''Email Body: ...''"
    by (intro exI [of _ l]) (simp add: replace_dots_def split_at_first_def)
  with n s r show ?thesis by simp
qed


section \<open>Listing the leads\<close>

lemma set_insert_desc: "set (insert_desc r xs) = insert r (set xs)"
  by (induction xs) auto

lemma set_foldl_insert_desc:
  "set (foldl (\<lambda>acc r. insert_desc r acc) acc rs) = set acc \<union> set rs"
  by (induction rs arbitrary: acc) (auto simp: set_insert_desc)

lemma set_order_by: "set (order_by_created_at_desc rs) = set rs"
  by (simp add: order_by_created_at_desc_def set_foldl_insert_desc)

lemma sql_eq_iff: "sql_eq a b = (a = b \<and> a \<noteq> None)"
  by (cases a; cases b) (simp_all add: sql_eq_def)

lemma get_leads_non_admin:
  assumes "role user \<noteq> ''admin''"
  shows "get_leads int4in user q db =
     (case leads db of
        None \<Rightarrow> \<lparr> res_status = 500, res_body = ErrorJson ''Failed to get leads'' \<rparr>
      | Some t \<Rightarrow>
          \<lparr> res_status = 200,
            res_body = LeadList (order_by_created_at_desc
              (filter (\<lambda>r. sql_eq (dealership_id r) (user_dealership_id user) \<and> status_clause q r)
                 (rows t))) \<rparr>)"
  using assms by (simp add: get_leads_def dealership_clause_def split: option.splits)

lemma status_clause_dealership [simp]:
  "status_clause (q \<lparr> q_dealership_id := x \<rparr>) = status_clause q"
  by (simp add: status_clause_def)

text \<open>
  C4. For a caller who is no admin, every lead of the answer has the dealership of
  the caller (and none has when the token names no dealership); with the table in
  place the answer holds exactly the leads of that dealership that pass the filter
  on the status. The \<^verbatim>\<open>dealership_id\<close> of the query, and how the database would read
  it, have no influence.
\<close>

theorem get_leads_non_admin_own_dealership_only:
  assumes "role user \<noteq> ''admin''"
  shows "(\<forall>r\<in>set (response_rows (get_leads int4in user q db)).
            dealership_id r = user_dealership_id user \<and> dealership_id r \<noteq> None) \<and>
         (\<forall>t. leads db = Some t \<longrightarrow>
            res_status (get_leads int4in user q db) = 200 \<and>
            set (response_rows (get_leads int4in user q db)) =
              {r \<in> set (rows t). dealership_id r = user_dealership_id user \<and>
                                  dealership_id r \<noteq> None \<and> status_clause q r}) \<and>
         (\<forall>x y int4in'. get_leads int4in user (q \<lparr> q_dealership_id := x \<rparr>) db =
                         get_leads int4in' user (q \<lparr> q_dealership_id := y \<rparr>) db)"
proof -
  have f: "(\<lambda>r. sql_eq (dealership_id r) (user_dealership_id user) \<and> status_clause q r) =
           (\<lambda>r. own user r \<and> status_clause q r)" for q
    by (simp add: sql_eq_iff own_def)
  have a: "own user r"
    if "r \<in> set (response_rows (get_leads int4in user q db))" for r
    using that
    by (cases "leads db")
       (simp_all add: get_leads_non_admin [OF assms] response_rows_def set_order_by f)
  have b: "res_status (get_leads int4in user q db) = 200 \<and>
            set (response_rows (get_leads int4in user q db)) =
              {r \<in> set (rows t). own user r \<and> status_clause q r}"
    if "leads db = Some t" for t
    using that
    by (simp add: get_leads_non_admin [OF assms] response_rows_def set_order_by f)
  have c: "get_leads int4in user (q \<lparr> q_dealership_id := x \<rparr>) db =
           get_leads int4in' user (q \<lparr> q_dealership_id := y \<rparr>) db" for x y int4in'
    by (simp add: get_leads_non_admin [OF assms] split: option.splits)
  from a b c show ?thesis
    unfolding own_def by blast
qed


theorem get_leads_non_admin_own_dealership_only_witness:
  "response_rows (get_leads (\<lambda>s. Some 2)
      \<lparr> userId = 2, token_email = ''rep@autoclick.com'', role = ''sales_rep'',
        user_dealership_id = Some 1 \<rparr>
      \<lparr> q_status = None, q_dealership_id = Some ''2'' \<rparr> two_dealerships)
     = [demo_lead 3 (Some 1) 30, demo_lead 1 (Some 1) 10] \<and>
   get_leads (\<lambda>s. Some 2)
      \<lparr> userId = 2, token_email = ''rep@autoclick.com'', role = ''sales_rep'',
        user_dealership_id = Some 1 \<rparr>
      \<lparr> q_status = None, q_dealership_id = Some ''2'' \<rparr> two_dealerships =
   get_leads (\<lambda>s. None)
      \<lparr> userId = 2, token_email = ''rep@autoclick.com'', role = ''sales_rep'',
        user_dealership_id = Some 1 \<rparr>
      \<lparr> q_status = None, q_dealership_id = None \<rparr> two_dealerships \<and>
   response_rows (get_leads (\<lambda>s. Some 2)
      \<lparr> userId = 2, token_email = ''rep@autoclick.com'', role = ''sales_rep'',
        user_dealership_id = None \<rparr>
      \<lparr> q_status = None, q_dealership_id = Some ''2'' \<rparr> two_dealerships) = []"
proof -
  let ?u = "\<lparr> userId = 2, token_email = ''rep@autoclick.com'', role = ''sales_rep'',
        user_dealership_id = Some 1 \<rparr>"
  let ?q = "\<lparr> q_status = None, q_dealership_id = Some ''2'' \<rparr>"
  have r: "role ?u \<noteq> ''admin''" by simp
  have 1: "response_rows (get_leads (\<lambda>s. Some 2) ?u ?q two_dealerships)
     = [demo_lead 3 (Some 1) 30, demo_lead 1 (Some 1) 10]"
    by code_simp
  from get_leads_non_admin_own_dealership_only [OF r, of "\<lambda>s. Some 2" ?q two_dealerships]
  have "get_leads (\<lambda>s. Some 2) ?u (?q \<lparr> q_dealership_id := Some ''2'' \<rparr>) two_dealerships =
        get_leads (\<lambda>s. None) ?u (?q \<lparr> q_dealership_id := None \<rparr>) two_dealerships"
    by blast
  then have 2: "get_leads (\<lambda>s. Some 2) ?u ?q two_dealerships =
        get_leads (\<lambda>s. None) ?u \<lparr> q_status = None, q_dealership_id = None \<rparr> two_dealerships"
    by simp
  have 3: "response_rows (get_leads (\<lambda>s. Some 2)
      \<lparr> userId = 2, token_email = ''rep@autoclick.com'', role = ''sales_rep'',
        user_dealership_id = None \<rparr> ?q two_dealerships) = []"
    by code_simp
  from 1 2 3 show ?thesis by simp
qed


section \<open>Updating a lead\<close>











lemma same_table: "leads db = Some t \<Longrightarrow> db \<lparr> leads := Some (t \<lparr> rows := rows t \<rparr>) \<rparr> = db"
  by simp










section \<open>Seeding twice\<close>

lemma insert_dealership_fresh:
  assumes "dealerships db = Some t" "serial t + 1 \<notin> set (map d_id (rows t))"
    and "length n \<le> 255" "length p \<le> 20" "length e \<le> 255"
  shows "\<exists>db'. insert_dealership now n a p e db = Inr ([serial t + 1], db') \<and>
           dealership_names db' = dealership_names db @ [(serial t + 1, n)]"
  using assms by (simp add: insert_dealership_def varchar_fits dealership_names_def Let_def)

text \<open>
  C1 does not hold of the code. \<^verbatim>\<open>dealerships\<close> has no unique constraint but its
  primary key, which the sequence fills, so \<^verbatim>\<open>ON CONFLICT DO NOTHING\<close> never skips
  the seed row: two runs on an empty database leave two dealerships named
  \<^verbatim>\<open>AutoClick Motors\<close>. The two demo users are reset as the claim says, to the
  second of these dealerships.
\<close>

theorem setupDatabase_twice_two_dealerships:
  "fst first_run = None \<and> fst second_run = None \<and>
   dealership_names (snd first_run) = [(1, ''AutoClick Motors'')] \<and>
   dealership_names (snd second_run) = [(1, ''AutoClick Motors''), (2, ''AutoClick Motors'')] \<and>
   user_credentials (snd first_run) =
     [(''admin@autoclick.com'', ''hash-admin-1'', ''Admin User'', Some ''admin'', Some 1),
      (''rep@autoclick.com'', ''hash-rep-1'', ''Sales Representative'', Some ''sales_rep'', Some 1)] \<and>
   user_credentials (snd second_run) =
     [(''admin@autoclick.com'', ''hash-admin-2'', ''Admin User'', Some ''admin'', Some 2),
      (''rep@autoclick.com'', ''hash-rep-2'', ''Sales Representative'', Some ''sales_rep'', Some 2)]"
  by code_simp


end
